theory Spec2Isabelle
  imports Complex_Main "HOL-Library.AList"
begin

section \<open>Python values used by the ENF scraping scripts\<close>

text \<open>
  The scripts work on Python strings, on dictionaries from field names to strings (the
  rows of \<^verbatim>\<open>enf_us_installers.csv\<close>) and on lists of such dictionaries.
  A string is a list of characters with code points below 256. A dictionary is an
  association list with distinct keys in insertion order: Python dictionaries keep the
  order in which keys were first stored, \<^const>\<open>map_of\<close> is \<^verbatim>\<open>d.get(k)\<close>
  and \<^const>\<open>AList.update\<close> is \<^verbatim>\<open>d[k] = v\<close> (in place for a key that is
  present, at the end for a new key). Exceptions are values of the type below.
\<close>

datatype error = ValueError | IndexError | KeyError | AttributeError | ClientError

type_synonym entry = "(string \<times> string) list"

text \<open>\<^verbatim>\<open>d.get(k, "")\<close>\<close>

definition get_str :: "entry \<Rightarrow> string \<Rightarrow> string" where
  "get_str d k = (case map_of d k of None \<Rightarrow> [] | Some v \<Rightarrow> v)"

text \<open>\<^verbatim>\<open>c.isspace()\<close> for a code point below 256.\<close>

definition isspace :: "char \<Rightarrow> bool" where
  "isspace c = (let n = (of_char c :: nat) in
     (9 \<le> n \<and> n \<le> 13) \<or> (28 \<le> n \<and> n \<le> 32) \<or> n = 133 \<or> n = 160)"

text \<open>\<^verbatim>\<open>s.strip()\<close>\<close>

definition strip :: "string \<Rightarrow> string" where
  "strip s = rev (dropWhile isspace (rev (dropWhile isspace s)))"

text \<open>\<^verbatim>\<open>s.startswith(p)\<close>\<close>

definition startswith :: "string \<Rightarrow> string \<Rightarrow> bool" where
  "startswith s p = (take (length p) s = p)"

text \<open>\<^verbatim>\<open>s.lower()\<close> for code points below 256: the ASCII capitals and the
  Latin-1 capitals (all of 192..222 but the multiplication sign 215) move up by 32.\<close>

definition lower_char :: "char \<Rightarrow> char" where
  "lower_char c = (let n = (of_char c :: nat) in
     if (65 \<le> n \<and> n \<le> 90) \<or> (192 \<le> n \<and> n \<le> 222 \<and> n \<noteq> 215)
     then char_of (n + 32) else c)"

definition lower :: "string \<Rightarrow> string" where
  "lower s = map lower_char s"

text \<open>\<^verbatim>\<open>sep.join(parts)\<close>\<close>

fun join :: "string \<Rightarrow> string list \<Rightarrow> string" where
  "join sep [] = []"
| "join sep [x] = x"
| "join sep (x # y # ys) = x @ sep @ join sep (y # ys)"

section \<open>The network location of \<^verbatim>\<open>urllib.parse.urlparse\<close>\<close>

text \<open>
  \<^verbatim>\<open>normalize_domain\<close> reads only \<^verbatim>\<open>urlparse(url).netloc\<close>. The model follows
  \<^verbatim>\<open>urlsplit\<close> of CPython 3.11/3.12: leading C0 control characters and spaces are
  dropped, every tab, carriage return and line feed is removed, a leading scheme
  (an ASCII letter followed by letters, digits, \<^verbatim>\<open>+\<close>, \<^verbatim>\<open>-\<close>, \<^verbatim>\<open>.\<close> up to the first
  colon) is split off, and when the rest starts with \<^verbatim>\<open>//\<close> the netloc runs up to the
  first of \<^verbatim>\<open>/\<close>, \<^verbatim>\<open>?\<close>, \<^verbatim>\<open>#\<close>. The parser raises \<^verbatim>\<open>ValueError\<close> for a netloc with
  one square bracket but not the other, for a bracketed host it does not accept, and
  for a non-ASCII netloc that fails its NFKC check. The last two checks depend on the
  release and on Unicode tables; they are the two fields of \<open>urllib\<close>.
\<close>

record urllib =
  bracketed_netloc_ok :: "string \<Rightarrow> bool"
  nfkc_netloc_ok :: "string \<Rightarrow> bool"

definition isascii :: "char \<Rightarrow> bool" where
  "isascii c = ((of_char c :: nat) < 128)"

definition ascii_alpha :: "char \<Rightarrow> bool" where
  "ascii_alpha c = (let n = (of_char c :: nat) in
     (65 \<le> n \<and> n \<le> 90) \<or> (97 \<le> n \<and> n \<le> 122))"

definition scheme_char :: "char \<Rightarrow> bool" where
  "scheme_char c = (let n = (of_char c :: nat) in
     ascii_alpha c \<or> (48 \<le> n \<and> n \<le> 57) \<or> c = CHR ''+'' \<or> c = CHR ''-'' \<or> c = CHR ''.'')"

definition unsafe_url_byte :: "char \<Rightarrow> bool" where
  "unsafe_url_byte c = ((of_char c :: nat) = 9 \<or> (of_char c :: nat) = 13 \<or> (of_char c :: nat) = 10)"

definition c0_control_or_space :: "char \<Rightarrow> bool" where
  "c0_control_or_space c = ((of_char c :: nat) \<le> 32)"

text \<open>The text after the scheme, when the text starts with one.\<close>

definition split_scheme :: "string \<Rightarrow> string" where
  "split_scheme url =
     (let pre = takeWhile (\<lambda>c. c \<noteq> CHR '':'') url in
      if CHR '':'' \<in> set url \<and> pre \<noteq> [] \<and> ascii_alpha (hd url) \<and> list_all scheme_char pre
      then drop (length pre + 1) url else url)"

definition splitnetloc :: "string \<Rightarrow> string" where
  "splitnetloc url = takeWhile (\<lambda>c. c \<noteq> CHR ''/'' \<and> c \<noteq> CHR ''?'' \<and> c \<noteq> CHR ''#'') (drop 2 url)"

definition urlparse_netloc :: "urllib \<Rightarrow> string \<Rightarrow> error + string" where
  "urlparse_netloc lib url0 =
     (let url = filter (\<lambda>c. \<not> unsafe_url_byte c) (dropWhile c0_control_or_space url0);
          url = split_scheme url
      in if take 2 url = ''//'' then
           (let netloc = splitnetloc url;
                lb = (CHR ''['' \<in> set netloc);
                rb = (CHR '']'' \<in> set netloc)
            in if (lb \<and> \<not> rb) \<or> (rb \<and> \<not> lb) then Inl ValueError
               else if lb \<and> rb \<and> \<not> bracketed_netloc_ok lib netloc then Inl ValueError
               else if netloc \<noteq> [] \<and> \<not> list_all isascii netloc \<and> \<not> nfkc_netloc_ok lib netloc
                 then Inl ValueError
               else Inr netloc)
         else Inr [])"

section \<open>The Domain Normalizer\<close>

text \<open>
  \<^verbatim>\<open>normalize_domain\<close> is the same function in \<^verbatim>\<open>enf_scraper_apify.py\<close>,
  \<^verbatim>\<open>enf_detail_scraper.py\<close> and \<^verbatim>\<open>enf_rescrape_missing.py\<close>. The body of its
  \<^verbatim>\<open>try\<close> block is \<open>normalize_domain_try\<close>; the handler \<^verbatim>\<open>except Exception\<close>
  turns every exception of the block into the empty string. The result is a sum so that
  an exception leaving the function would be a value \<open>Inl\<close>.
\<close>

definition normalize_domain_try :: "urllib \<Rightarrow> string \<Rightarrow> error + string" where
  "normalize_domain_try lib url =
     (case urlparse_netloc lib url of
        Inl e \<Rightarrow> Inl e
      | Inr netloc \<Rightarrow>
          (let domain = lower netloc;
               domain = (if startswith domain ''www.'' then drop 4 domain else domain);
               domain = (if CHR '':'' \<in> set domain
                         then takeWhile (\<lambda>c. c \<noteq> CHR '':'') domain else domain)
           in Inr domain))"

definition normalize_domain :: "urllib \<Rightarrow> string \<Rightarrow> error + string" where
  "normalize_domain lib url0 =
     (if url0 = [] \<or> strip url0 = [] then Inr []
      else
        (let url = strip url0;
             url = (if \<not> (startswith url ''http://'' \<or> startswith url ''https://'')
                    then ''https://'' @ url else url)
         in case normalize_domain_try lib url of
              Inl e \<Rightarrow> Inr []
            | Inr domain \<Rightarrow> Inr domain))"

text \<open>The string a caller of \<open>normalize_domain\<close> receives.\<close>

definition domain_of :: "urllib \<Rightarrow> string \<Rightarrow> string" where
  "domain_of lib url = (case normalize_domain lib url of Inl e \<Rightarrow> [] | Inr d \<Rightarrow> d)"

text \<open>A URL parser that accepts every bracketed and every non-ASCII netloc.\<close>

definition permissive_urllib :: urllib where
  "permissive_urllib = \<lparr>bracketed_netloc_ok = (\<lambda>n. True), nfkc_netloc_ok = (\<lambda>n. True)\<rparr>"

section \<open>The Result Merger\<close>

text \<open>
  An item of the remote job's dataset, as the page function returns it and as the
  mergers read it: \<^verbatim>\<open>item.get("websites", [])\<close>, \<^verbatim>\<open>item.get("phone", "")\<close>,
  \<^verbatim>\<open>item.get("address", "")\<close>, with the two keys the results are filed under.
\<close>

record extraction =
  detail_url :: string
  entryIndex :: "int option"
  websites :: "string list"
  phone :: string
  address :: string

text \<open>\<^verbatim>\<open>str(n)\<close> for a length.\<close>

fun str_nat :: "nat \<Rightarrow> string" where
  "str_nat n = (if n < 10 then [char_of (48 + n)]
                else str_nat (n div 10) @ [char_of (48 + n mod 10)])"

declare str_nat.simps [simp del]

text \<open>
  The block under \<^verbatim>\<open>if websites:\<close>, the same in \<^verbatim>\<open>update_entries_with_results\<close>
  and in \<^verbatim>\<open>update_entries\<close>.
\<close>

definition set_websites :: "urllib \<Rightarrow> string list \<Rightarrow> entry \<Rightarrow> entry" where
  "set_websites lib ws entry =
     (let entry = AList.update ''website_url_primary'' (hd ws) entry;
          entry = AList.update ''website_domain_primary'' (domain_of lib (hd ws)) entry
      in if length ws > 1 then
           (let entry = AList.update ''website_count'' (str_nat (length ws)) entry;
                entry = AList.update ''website_urls_all'' (join ''|'' ws) entry;
                entry = AList.update ''website_domains_all''
                          (join ''|'' (map (domain_of lib) ws)) entry
            in entry)
         else entry)"

subsection \<open>\<^verbatim>\<open>update_entries_with_results\<close> of \<^verbatim>\<open>enf_detail_scraper.py\<close>\<close>

text \<open>\<^verbatim>\<open>results.get(detail_url, {})\<close> read through the three \<^verbatim>\<open>get\<close> calls.\<close>

definition no_result :: extraction where
  "no_result = \<lparr>detail_url = [], entryIndex = None, websites = [], phone = [], address = []\<rparr>"

definition result_for :: "(string \<times> extraction) list \<Rightarrow> entry \<Rightarrow> extraction" where
  "result_for results entry =
     (case map_of results (get_str entry ''detail_url'') of None \<Rightarrow> no_result | Some r \<Rightarrow> r)"

text \<open>One pass of the loop body on \<^verbatim>\<open>entries[i]\<close>.\<close>

definition update_entry :: "urllib \<Rightarrow> (string \<times> extraction) list \<Rightarrow> entry \<Rightarrow> entry" where
  "update_entry lib results entry =
     (let result = result_for results entry;
          entry = (if websites result \<noteq> [] then set_websites lib (websites result) entry
                   else AList.update ''website_domain_primary'' []
                          (AList.update ''website_url_primary'' [] entry));
          entry = AList.update ''phone'' (phone result) entry;
          entry = AList.update ''address'' (address result) entry
      in entry)"

text \<open>The loop over \<^verbatim>\<open>range(start_idx, min(end_idx, len(entries)))\<close>; the state is the
  list of entries, updated in place, and the counter \<^verbatim>\<open>updated\<close>.\<close>

definition update_entries_with_results_body ::
  "urllib \<Rightarrow> (string \<times> extraction) list \<Rightarrow> nat \<Rightarrow> entry list \<times> nat \<Rightarrow> entry list \<times> nat" where
  "update_entries_with_results_body lib results i st =
     (case st of (es, updated) \<Rightarrow>
        (es[i := update_entry lib results (es ! i)],
         (if websites (result_for results (es ! i)) \<noteq> [] then updated + 1 else updated)))"

definition update_entries_with_results ::
  "urllib \<Rightarrow> entry list \<Rightarrow> (string \<times> extraction) list \<Rightarrow> nat \<Rightarrow> nat \<Rightarrow> entry list \<times> nat" where
  "update_entries_with_results lib entries results start_idx end_idx =
     fold (update_entries_with_results_body lib results)
          [start_idx ..< min end_idx (length entries)] (entries, 0)"

subsection \<open>\<^verbatim>\<open>update_entries\<close> of \<^verbatim>\<open>enf_rescrape_missing.py\<close>\<close>

text \<open>\<^verbatim>\<open>entries[idx]\<close> for a Python integer: the position, counted from the end for a
  negative index, or \<^verbatim>\<open>IndexError\<close>.\<close>

definition py_index :: "nat \<Rightarrow> int \<Rightarrow> error + nat" where
  "py_index n idx =
     (if 0 \<le> idx \<and> idx < int n then Inr (nat idx)
      else if - int n \<le> idx \<and> idx < 0 then Inr (nat (idx + int n))
      else Inl IndexError)"

text \<open>The loop body on the entry \<^verbatim>\<open>entries[idx]\<close>.\<close>

definition merge_item :: "urllib \<Rightarrow> extraction \<Rightarrow> entry \<Rightarrow> entry" where
  "merge_item lib item entry =
     (let entry = (if websites item \<noteq> [] then set_websites lib (websites item) entry else entry);
          entry = (if phone item \<noteq> [] \<and> get_str entry ''phone'' = []
                   then AList.update ''phone'' (phone item) entry else entry);
          entry = (if address item \<noteq> [] \<and> get_str entry ''address'' = []
                   then AList.update ''address'' (address item) entry else entry)
      in entry)"

text \<open>
  The loop over \<^verbatim>\<open>results.items()\<close>, a dictionary from the entry index to the item, in
  insertion order. The body evaluates \<^verbatim>\<open>entries[idx]\<close> only when the item has a
  website, a phone or an address, so only then can it raise \<^verbatim>\<open>IndexError\<close>.
\<close>

fun update_entries_loop ::
  "urllib \<Rightarrow> (int \<times> extraction) list \<Rightarrow> entry list \<times> nat \<Rightarrow> error + entry list \<times> nat" where
  "update_entries_loop lib [] st = Inr st"
| "update_entries_loop lib ((idx, item) # rest) (es, updated) =
     (if websites item \<noteq> [] \<or> phone item \<noteq> [] \<or> address item \<noteq> [] then
        (case py_index (length es) idx of
           Inl e \<Rightarrow> Inl e
         | Inr p \<Rightarrow> update_entries_loop lib rest
                     (es[p := merge_item lib item (es ! p)],
                      (if websites item \<noteq> [] then updated + 1 else updated)))
      else update_entries_loop lib rest (es, updated))"

definition update_entries ::
  "urllib \<Rightarrow> entry list \<Rightarrow> (int \<times> extraction) list \<Rightarrow> error + entry list \<times> nat" where
  "update_entries lib entries results = update_entries_loop lib results (entries, 0)"

text \<open>The five fields the block under \<^verbatim>\<open>if websites:\<close> may write.\<close>

definition website_keys :: "string set" where
  "website_keys = {''website_url_primary'', ''website_domain_primary'', ''website_count'',
                   ''website_urls_all'', ''website_domains_all''}"

section \<open>The Batch Planner\<close>

text \<open>
  The three \<^verbatim>\<open>main\<close> functions cut the work list into batches of \<^verbatim>\<open>BATCH_SIZE\<close>
  items (200 in \<^verbatim>\<open>enf_detail_scraper.py\<close>, 100 in the two re-scrape scripts); the size
  is the parameter \<open>B\<close>. \<^verbatim>\<open>math.ceil(n / BATCH_SIZE)\<close> is the ceiling of the quotient;
  the quotient is a floating-point number in Python, exact for every length a list can
  have on the machines the scripts run on (below \<open>2^53\<close>).
\<close>

definition total_batches :: "nat \<Rightarrow> nat \<Rightarrow> nat" where
  "total_batches n B = nat \<lceil>real n / real B\<rceil>"

text \<open>\<^verbatim>\<open>xs[start:end]\<close> for \<open>0 \<le> start\<close> and \<open>0 \<le> end\<close>.\<close>

definition slice :: "'a list \<Rightarrow> nat \<Rightarrow> nat \<Rightarrow> 'a list" where
  "slice xs start end = take (end - start) (drop start xs)"

text \<open>\<^verbatim>\<open>enf_rescrape_missing.py\<close>: \<^verbatim>\<open>for batch_num in range(1, total_batches + 1)\<close>,
  the batch is \<^verbatim>\<open>missing_indices[start_idx:end_idx]\<close>.\<close>

definition plan_batches :: "nat \<Rightarrow> 'a list \<Rightarrow> 'a list list" where
  "plan_batches B xs =
     map (\<lambda>batch_num.
            let start_idx = (batch_num - 1) * B;
                end_idx = min (start_idx + B) (length xs)
            in slice xs start_idx end_idx)
         [1 ..< total_batches (length xs) B + 1]"

text \<open>\<^verbatim>\<open>enf_rescrape_wecp.py\<close>: \<^verbatim>\<open>for batch_num in range(num_batches)\<close>,
  the batch is \<^verbatim>\<open>urls_to_scrape[batch_start:batch_end]\<close>.\<close>

definition plan_batches_wecp :: "nat \<Rightarrow> 'a list \<Rightarrow> 'a list list" where
  "plan_batches_wecp B xs =
     map (\<lambda>batch_num.
            let batch_start = batch_num * B;
                batch_end = min (batch_start + B) (length xs)
            in slice xs batch_start batch_end)
         [0 ..< total_batches (length xs) B]"

text \<open>\<^verbatim>\<open>enf_detail_scraper.py\<close>: the batch is the pair \<^verbatim>\<open>(start_idx, end_idx)\<close>, and
  \<^verbatim>\<open>prepare_urls_for_batch\<close> and \<^verbatim>\<open>update_entries_with_results\<close> visit
  \<^verbatim>\<open>range(start_idx, min(end_idx, len(entries)))\<close>.\<close>

definition plan_batch_ranges :: "nat \<Rightarrow> nat \<Rightarrow> (nat \<times> nat) list" where
  "plan_batch_ranges B n =
     map (\<lambda>batch_num.
            let start_idx = (batch_num - 1) * B;
                end_idx = start_idx + B
            in (start_idx, end_idx))
         [1 ..< total_batches n B + 1]"

definition batch_range_indices :: "nat \<Rightarrow> nat \<times> nat \<Rightarrow> nat list" where
  "batch_range_indices n r = [fst r ..< min (snd r) n]"

section \<open>URLs submitted for a batch\<close>

text \<open>An element of \<^verbatim>\<open>startUrls\<close>: the URL, the method and the \<^verbatim>\<open>userData\<close>
  (\<^verbatim>\<open>entryIndex\<close>, and \<^verbatim>\<open>company_name\<close> in \<^verbatim>\<open>enf_detail_scraper.py\<close> only).\<close>

record request =
  req_url :: string
  req_method :: string
  user_entryIndex :: int
  user_company_name :: "string option"

text \<open>\<^verbatim>\<open>get_missing_indices\<close> of \<^verbatim>\<open>enf_rescrape_missing.py\<close>: the positions of the
  entries whose \<^verbatim>\<open>website_url_primary\<close> is absent or empty.\<close>

definition get_missing_indices :: "entry list \<Rightarrow> int list" where
  "get_missing_indices entries =
     map int (filter (\<lambda>i. get_str (entries ! i) ''website_url_primary'' = [])
                     [0 ..< length entries])"

text \<open>\<^verbatim>\<open>prepare_urls\<close> of \<^verbatim>\<open>enf_rescrape_missing.py\<close>; \<^verbatim>\<open>entries[idx]\<close> raises
  \<^verbatim>\<open>IndexError\<close> for an index outside the list. The third argument is the list
  \<^verbatim>\<open>urls\<close> built so far.\<close>

fun prepare_urls_loop :: "entry list \<Rightarrow> int list \<Rightarrow> request list \<Rightarrow> error + request list" where
  "prepare_urls_loop entries [] urls = Inr urls"
| "prepare_urls_loop entries (idx # indices) urls =
     (case py_index (length entries) idx of
        Inl e \<Rightarrow> Inl e
      | Inr p \<Rightarrow>
          (let entry = entries ! p;
               detail_url = get_str entry ''detail_url''
           in if detail_url \<noteq> []
              then prepare_urls_loop entries indices
                     (urls @ [\<lparr>req_url = detail_url, req_method = ''GET'',
                               user_entryIndex = idx, user_company_name = None\<rparr>])
              else prepare_urls_loop entries indices urls))"

definition prepare_urls :: "entry list \<Rightarrow> int list \<Rightarrow> error + request list" where
  "prepare_urls entries indices = prepare_urls_loop entries indices []"

text \<open>\<^verbatim>\<open>prepare_urls_for_batch\<close> of \<^verbatim>\<open>enf_detail_scraper.py\<close>, over
  \<^verbatim>\<open>range(start_idx, min(end_idx, len(entries)))\<close>.\<close>

definition prepare_urls_for_batch :: "entry list \<Rightarrow> nat \<Rightarrow> nat \<Rightarrow> request list" where
  "prepare_urls_for_batch entries start_idx end_idx =
     fold (\<lambda>i urls.
            let entry = entries ! i;
                detail_url = get_str entry ''detail_url''
            in if detail_url \<noteq> []
               then urls @ [\<lparr>req_url = detail_url, req_method = ''GET'',
                              user_entryIndex = int i,
                              user_company_name = Some (get_str entry ''company_name'')\<rparr>]
               else urls)
          [start_idx ..< min end_idx (length entries)] []"

section \<open>Saving the listing scrape: \<^verbatim>\<open>save_to_csv\<close> of \<^verbatim>\<open>enf_scraper_apify.py\<close>\<close>

definition listing_fieldnames :: "string list" where
  "listing_fieldnames = [''company_name'', ''area'', ''battery_storage'', ''detail_url'',
                         ''source_page'']"

text \<open>The body of the deduplication loop; the state is the set \<^verbatim>\<open>seen\<close> and the list
  \<^verbatim>\<open>unique\<close>.\<close>

definition dedupe_step :: "entry \<Rightarrow> string set \<times> entry list \<Rightarrow> string set \<times> entry list" where
  "dedupe_step inst st =
     (case st of (seen, unique) \<Rightarrow>
        (let url = get_str inst ''detail_url''
         in if url \<noteq> [] \<and> url \<notin> seen then (insert url seen, unique @ [inst])
            else if url = [] then (seen, unique @ [inst])
            else (seen, unique)))"

text \<open>A CSV file: the header and the rows, a cell for every field of the header.\<close>

type_synonym csv_file = "string list \<times> string list list"

text \<open>\<^verbatim>\<open>save_to_csv\<close> writes the file and returns \<^verbatim>\<open>unique\<close>.\<close>

definition save_to_csv :: "entry list \<Rightarrow> csv_file \<times> entry list" where
  "save_to_csv installers =
     (let unique = snd (fold dedupe_step installers ({}, []))
      in ((listing_fieldnames,
           map (\<lambda>installer. map (\<lambda>k. get_str installer k) listing_fieldnames) unique),
          unique))"

text \<open>A position that is a first occurrence: its record has an empty
  \<^verbatim>\<open>detail_url\<close>, or a \<^verbatim>\<open>detail_url\<close> that no earlier record has.\<close>

definition first_occurrence :: "entry list \<Rightarrow> nat \<Rightarrow> bool" where
  "first_occurrence installers i =
     (get_str (installers ! i) ''detail_url'' = []
      \<or> get_str (installers ! i) ''detail_url''
           \<notin> (\<lambda>inst. get_str inst ''detail_url'') ` set (take i installers))"

section \<open>The Record Store of \<^verbatim>\<open>enf_detail_scraper.py\<close>\<close>

definition base_cols :: "string list" where
  "base_cols = [''company_name'', ''area'', ''battery_storage'', ''detail_url'', ''source_page'',
                ''website_url_primary'', ''website_domain_primary'', ''phone'', ''address'',
                ''website_count'', ''website_urls_all'', ''website_domains_all'']"

text \<open>The keys the set \<^verbatim>\<open>existing_cols\<close> receives, in the order it receives them.\<close>

definition entry_keys :: "entry list \<Rightarrow> string list" where
  "entry_keys entries = concat (map (map fst) entries)"

text \<open>
  \<^verbatim>\<open>get_fieldnames\<close>. \<^verbatim>\<open>existing_cols\<close> is a Python \<^verbatim>\<open>set\<close> of strings, and
  \<^verbatim>\<open>for col in existing_cols\<close> visits it in the order of its hash table, which the
  language leaves open and which changes from one process to the next (string hashes
  are salted). The order is the parameter \<open>set_iter\<close>: the list in which a set that
  received the given keys is visited.
\<close>

definition get_fieldnames :: "(string list \<Rightarrow> string list) \<Rightarrow> entry list \<Rightarrow> string list" where
  "get_fieldnames set_iter entries =
     (let existing_cols = entry_keys entries;
          fieldnames = filter (\<lambda>c. c \<in> set existing_cols \<or> c \<in> set base_cols) base_cols
      in fold (\<lambda>col fieldnames. if col \<notin> set fieldnames then fieldnames @ [col] else fieldnames)
              (set_iter existing_cols) fieldnames)"

text \<open>\<^verbatim>\<open>save_csv\<close>: nothing is written for an empty list; otherwise the header and, with
  \<^verbatim>\<open>extrasaction="ignore"\<close>, a cell for every field of the header (empty for a field
  the entry does not have).\<close>

definition save_csv :: "(string list \<Rightarrow> string list) \<Rightarrow> entry list \<Rightarrow> csv_file option" where
  "save_csv set_iter entries =
     (if entries = [] then None
      else (let fieldnames = get_fieldnames set_iter entries
            in Some (fieldnames, map (\<lambda>entry. map (\<lambda>k. get_str entry k) fieldnames) entries)))"

text \<open>The first-seen order: the keys in the order in which they are first met, and the
  header that lists the additional fields in that order.\<close>

definition first_seen :: "string list \<Rightarrow> string list" where
  "first_seen ks = rev (remdups (rev ks))"

definition first_seen_fieldnames :: "entry list \<Rightarrow> string list" where
  "first_seen_fieldnames entries =
     base_cols @ filter (\<lambda>c. c \<notin> set base_cols) (first_seen (entry_keys entries))"

text \<open>One order in which a set can be visited: the reverse of the order of arrival.\<close>

definition reversed_set_iter :: "string list \<Rightarrow> string list" where
  "reversed_set_iter ks = remdups (rev ks)"

section \<open>Notions used to state what the loop of \<open>update_entries\<close> computes\<close>

text \<open>The items for which the loop body evaluates \<^verbatim>\<open>entries[idx]\<close>.\<close>

definition accessed :: "extraction \<Rightarrow> bool" where
  "accessed item = (websites item \<noteq> [] \<or> phone item \<noteq> [] \<or> address item \<noteq> [])"

text \<open>The items merged into the entry at position \<open>p\<close> of a list of \<open>n\<close> entries, in
  the order of the loop.\<close>

definition items_at :: "nat \<Rightarrow> nat \<Rightarrow> (int \<times> extraction) list \<Rightarrow> extraction list" where
  "items_at n p results =
     map snd (filter (\<lambda>r. accessed (snd r) \<and> py_index n (fst r) = Inr p) results)"

text \<open>What a merge does to one field, as a function of the field's old value: it
  leaves it, it assigns a value that does not depend on the old one, or it fills it
  with a non-empty value when it is absent or empty.\<close>

definition field_effect :: "(string option \<Rightarrow> string option) \<Rightarrow> bool" where
  "field_effect f = ((\<exists>c. f = (\<lambda>x. c)) \<or> f = (\<lambda>x. x)
     \<or> (\<exists>v. v \<noteq> [] \<and> f = (\<lambda>x. if x = None \<or> x = Some [] then Some v else x)))"

text \<open>The fields an item writes when it is merged into an entry that lacks them.\<close>

definition touched :: "extraction \<Rightarrow> string set" where
  "touched item =
     (if websites item \<noteq> [] then {''website_url_primary'', ''website_domain_primary''} else {})
     \<union> (if length (websites item) > 1
        then {''website_count'', ''website_urls_all'', ''website_domains_all''} else {})
     \<union> (if phone item \<noteq> [] then {''phone''} else {})
     \<union> (if address item \<noteq> [] then {''address''} else {})"

text \<open>The two guarded assignments of \<open>merge_item\<close>:
  \<^verbatim>\<open>if v and not entry.get(k): entry[k] = v\<close>.\<close>

definition fill_field :: "string \<Rightarrow> string \<Rightarrow> entry \<Rightarrow> entry" where
  "fill_field k v entry = (if v \<noteq> [] \<and> get_str entry k = [] then AList.update k v entry else entry)"

section \<open>The Remote Extraction Client\<close>

text \<open>
  \<^verbatim>\<open>run_apify_batch\<close> talks to the remote service three times: it starts the actor with
  \<^verbatim>\<open>client.actor(actor_id).call(...)\<close>, it polls \<^verbatim>\<open>client.run(run_id).get()\<close> in a
  \<^verbatim>\<open>while True\<close> loop, and it reads \<^verbatim>\<open>client.dataset(dataset_id).iterate_items()\<close>.
  What the service answers during one call of the function is a value of \<open>remote\<close>: the
  result of the call, the answer to the \<open>k\<close>-th poll, and the result of reading the
  dataset (an exception or the items).

  The call raises, or returns the run, or returns \<^verbatim>\<open>None\<close> (the client does so for a
  run it cannot find); \<^verbatim>\<open>actor_run.get("id")\<close> follows the call outside every
  \<^verbatim>\<open>try\<close> and raises \<^verbatim>\<open>AttributeError\<close> on \<^verbatim>\<open>None\<close>.

  A poll raises or gives \<^verbatim>\<open>None\<close>, on which \<^verbatim>\<open>run_info.get\<close> raises
  (\<open>PollError\<close>), or gives a \<^verbatim>\<open>run_info\<close> of which the loop reads
  \<^verbatim>\<open>run_info.get("status", "UNKNOWN")\<close> and \<^verbatim>\<open>run_info.get("statusMessage", "")\<close>:
  \<open>PollInfo status message\<close>, where the message is \<open>None\<close> when the service sends
  \<^verbatim>\<open>null\<close> for it and the text (empty when the key is absent) otherwise.
\<close>

datatype poll = PollError | PollInfo string "string option"

record actor_run =
  run_id :: string
  defaultDatasetId :: string

record remote =
  call_result :: "error + actor_run option"
  poll_result :: "nat \<Rightarrow> poll"
  dataset_items :: "error + extraction list"

definition terminal :: "string \<Rightarrow> bool" where
  "terminal status = (status \<in> {''SUCCEEDED'', ''FAILED'', ''ABORTED'', ''TIMED-OUT''})"

text \<open>
  The polling loop from its \<open>k\<close>-th pass on: the status at which it breaks. The body
  of the \<^verbatim>\<open>try\<close> reads the status, then evaluates
  \<^verbatim>\<open>run_info.get("statusMessage", "")[:70]\<close>, which raises \<^verbatim>\<open>TypeError\<close> on
  \<^verbatim>\<open>None\<close>, then prints, then tests the status. The handler inside the loop catches
  every exception of the body, and the loop sleeps and starts the next pass; so does a
  pass whose status is not terminal. The loop has no bound, so the result is an option
  and \<open>None\<close> is the loop that never ends.
\<close>

partial_function (option) poll_loop :: "(nat \<Rightarrow> poll) \<Rightarrow> nat \<Rightarrow> string option" where
  "poll_loop polls k =
     (case polls k of
        PollError \<Rightarrow> poll_loop polls (Suc k)
      | PollInfo status message \<Rightarrow>
          (case message of
             None \<Rightarrow> poll_loop polls (Suc k)
           | Some msg \<Rightarrow>
               if terminal status then Some status else poll_loop polls (Suc k)))"

text \<open>The loops that file the items: under \<^verbatim>\<open>entryIndex\<close> in
  \<^verbatim>\<open>enf_rescrape_missing.py\<close>, under \<^verbatim>\<open>detail_url\<close> in \<^verbatim>\<open>enf_detail_scraper.py\<close>.\<close>

definition collect_by_index :: "extraction list \<Rightarrow> (int \<times> extraction) list" where
  "collect_by_index items =
     fold (\<lambda>item results. case entryIndex item of
                              None \<Rightarrow> results
                            | Some idx \<Rightarrow> AList.update idx item results) items []"

definition collect_by_url :: "extraction list \<Rightarrow> (string \<times> extraction) list" where
  "collect_by_url items =
     fold (\<lambda>item results. if detail_url item \<noteq> []
                            then AList.update (detail_url item) item results
                            else results) items []"

text \<open>\<^verbatim>\<open>run_apify_batch\<close> of \<^verbatim>\<open>enf_rescrape_missing.py\<close>. The result is \<open>None\<close> when
  the polling loop never ends, \<open>Some (Inl e)\<close> when the exception \<open>e\<close> leaves the
  function and \<open>Some (Inr results)\<close> when it returns the mapping \<open>results\<close>.\<close>

definition run_apify_batch :: "remote \<Rightarrow> (error + (int \<times> extraction) list) option" where
  "run_apify_batch r =
     (case call_result r of
        Inl e \<Rightarrow> Some (Inr [])
      | Inr None \<Rightarrow> Some (Inl AttributeError)
      | Inr (Some run) \<Rightarrow>
          (case poll_loop (poll_result r) 0 of
             None \<Rightarrow> None
           | Some status \<Rightarrow>
               Some (Inr (if status = ''SUCCEEDED'' \<and> defaultDatasetId run \<noteq> []
                          then (case dataset_items r of
                                  Inl e \<Rightarrow> []
                                | Inr items \<Rightarrow> collect_by_index items)
                          else []))))"

text \<open>\<^verbatim>\<open>run_apify_batch\<close> of \<^verbatim>\<open>enf_detail_scraper.py\<close>.\<close>

definition run_apify_batch_by_url :: "remote \<Rightarrow> (error + (string \<times> extraction) list) option" where
  "run_apify_batch_by_url r =
     (case call_result r of
        Inl e \<Rightarrow> Some (Inr [])
      | Inr None \<Rightarrow> Some (Inl AttributeError)
      | Inr (Some run) \<Rightarrow>
          (case poll_loop (poll_result r) 0 of
             None \<Rightarrow> None
           | Some status \<Rightarrow>
               Some (Inr (if status = ''SUCCEEDED'' \<and> defaultDatasetId run \<noteq> []
                          then (case dataset_items r of
                                  Inl e \<Rightarrow> []
                                | Inr items \<Rightarrow> collect_by_url items)
                          else []))))"

text \<open>A pass of the polling loop whose poll raises or reads a status that is not
  terminal.\<close>

definition not_terminal_pass :: "poll \<Rightarrow> bool" where
  "not_terminal_pass p =
     (case p of PollError \<Rightarrow> True | PollInfo status message \<Rightarrow> \<not> terminal status)"

text \<open>A pass that reads the status \<open>status\<close> with a status message that is a text.\<close>

definition reads_status :: "poll \<Rightarrow> string \<Rightarrow> bool" where
  "reads_status p status =
     (case p of
        PollError \<Rightarrow> False
      | PollInfo s message \<Rightarrow> s = status \<and> message \<noteq> None)"

text \<open>The \<open>j\<close>-th pass of the polling loop is the first that reads a terminal status,
  the status is \<open>status\<close> and its message is a text.\<close>

definition first_terminal :: "(nat \<Rightarrow> poll) \<Rightarrow> nat \<Rightarrow> string \<Rightarrow> bool" where
  "first_terminal polls j status =
     (reads_status (polls j) status \<and> terminal status
      \<and> list_all (\<lambda>i. not_terminal_pass (polls i)) [0..<j])"

section \<open>The batch loops of the \<^verbatim>\<open>main\<close> functions\<close>

text \<open>
  The state of a run: the entries in memory, the running total of websites found and
  the files written so far, one for every checkpoint. \<open>remotes batch_num\<close> is what the
  service does during the call for that batch. The result is \<open>None\<close> when a polling loop
  never ends and \<open>Some (Inl e)\<close> when an exception leaves \<^verbatim>\<open>main\<close>.
\<close>

record run_state =
  st_entries :: "entry list"
  st_total_found :: nat
  st_saved :: "csv_file list"

text \<open>\<^verbatim>\<open>save_csv\<close> of \<^verbatim>\<open>enf_rescrape_missing.py\<close>: the header read from the file is
  written back; \<^verbatim>\<open>csv.DictWriter\<close> without \<^verbatim>\<open>extrasaction\<close> raises \<^verbatim>\<open>ValueError\<close> for
  an entry with a key that is not in the header.\<close>

definition save_csv_rescrape :: "string list \<Rightarrow> entry list \<Rightarrow> error + csv_file" where
  "save_csv_rescrape fieldnames entries =
     (if list_ex (\<lambda>entry. list_ex (\<lambda>k. k \<notin> set fieldnames) (map fst entry)) entries
      then Inl ValueError
      else Inr (fieldnames, map (\<lambda>entry. map (\<lambda>k. get_str entry k) fieldnames) entries))"

text \<open>The \<^verbatim>\<open>for batch_num in range(1, total_batches + 1)\<close> loop of
  \<^verbatim>\<open>enf_rescrape_missing.py\<close>, over the batches with their numbers.\<close>

fun rescrape_batches ::
  "urllib \<Rightarrow> string list \<Rightarrow> (nat \<Rightarrow> remote) \<Rightarrow> (nat \<times> int list) list \<Rightarrow> run_state
     \<Rightarrow> (error + run_state) option" where
  "rescrape_batches lib fieldnames remotes [] st = Some (Inr st)"
| "rescrape_batches lib fieldnames remotes ((batch_num, batch_indices) # rest) st =
     (case prepare_urls (st_entries st) batch_indices of
        Inl e \<Rightarrow> Some (Inl e)
      | Inr urls \<Rightarrow>
          if urls = [] then rescrape_batches lib fieldnames remotes rest st
          else
            (case run_apify_batch (remotes batch_num) of
               None \<Rightarrow> None
             | Some (Inl e) \<Rightarrow> Some (Inl e)
             | Some (Inr results) \<Rightarrow>
                 (case update_entries lib (st_entries st) results of
                    Inl e \<Rightarrow> Some (Inl e)
                  | Inr (entries', found) \<Rightarrow>
                      (case save_csv_rescrape fieldnames entries' of
                         Inl e \<Rightarrow> Some (Inl e)
                       | Inr file \<Rightarrow>
                           rescrape_batches lib fieldnames remotes rest
                             \<lparr>st_entries = entries',
                              st_total_found = st_total_found st + found,
                              st_saved = st_saved st @ [file]\<rparr>))))"

text \<open>The same loop of \<^verbatim>\<open>enf_detail_scraper.py\<close>, over the index ranges with their
  numbers. The list of entries is not empty there, so \<open>save_csv\<close> writes a file.\<close>

fun detail_batches ::
  "urllib \<Rightarrow> (string list \<Rightarrow> string list) \<Rightarrow> (nat \<Rightarrow> remote) \<Rightarrow> (nat \<times> nat \<times> nat) list
     \<Rightarrow> run_state \<Rightarrow> (error + run_state) option" where
  "detail_batches lib set_iter remotes [] st = Some (Inr st)"
| "detail_batches lib set_iter remotes ((batch_num, start_idx, end_idx) # rest) st =
     (let urls = prepare_urls_for_batch (st_entries st) start_idx end_idx
      in if urls = [] then detail_batches lib set_iter remotes rest st
         else
           (case run_apify_batch_by_url (remotes batch_num) of
              None \<Rightarrow> None
            | Some (Inl e) \<Rightarrow> Some (Inl e)
            | Some (Inr results) \<Rightarrow>
                (case update_entries_with_results lib (st_entries st) results start_idx end_idx of
                   (entries', updated) \<Rightarrow>
                     detail_batches lib set_iter remotes rest
                       \<lparr>st_entries = entries',
                        st_total_found = st_total_found st + updated,
                        st_saved = st_saved st @ (case save_csv set_iter entries' of
                                                   None \<Rightarrow> [] | Some file \<Rightarrow> [file])\<rparr>)))"

subsection \<open>The batch loop of \<^verbatim>\<open>enf_rescrape_wecp.py\<close>\<close>

text \<open>\<^verbatim>\<open>extract_domain\<close>: the netloc without a leading \<^verbatim>\<open>www.\<close>; the bare
  \<^verbatim>\<open>except\<close> turns every exception into the empty string.\<close>

definition extract_domain :: "urllib \<Rightarrow> string \<Rightarrow> string" where
  "extract_domain lib url =
     (if url = [] then []
      else (case urlparse_netloc lib url of
              Inl e \<Rightarrow> []
            | Inr domain \<Rightarrow> if startswith domain ''www.'' then drop 4 domain else domain))"

text \<open>An item of the dataset of that script: \<^verbatim>\<open>r['url']\<close>, which raises \<^verbatim>\<open>KeyError\<close>
  when the key is absent, and \<^verbatim>\<open>r.get('website', '')\<close>.\<close>

record wecp_item =
  item_url :: "string option"
  item_website :: string

text \<open>What the service does during one batch: the result of \<^verbatim>\<open>call\<close> with the line
  that prints the status of the run (an exception, or the status), and the result of
  reading the dataset.\<close>

record wecp_remote =
  wecp_call :: "error + string"
  wecp_items :: "error + wecp_item list"

text \<open>\<^verbatim>\<open>{r['url']: r for r in results}\<close>\<close>

definition url_to_result :: "wecp_item list \<Rightarrow> error + (string \<times> wecp_item) list" where
  "url_to_result results =
     (if list_ex (\<lambda>r. item_url r = None) results then Inl KeyError
      else Inr (fold (\<lambda>r d. AList.update (the (item_url r)) r d) results []))"

text \<open>The loop \<^verbatim>\<open>for item in batch\<close> over the pairs of \<^verbatim>\<open>index\<close> and \<^verbatim>\<open>url\<close>. The
  result is the rows as the loop leaves them and the number found, or \<open>None\<close> after an
  \<^verbatim>\<open>IndexError\<close> of \<^verbatim>\<open>rows[idx]\<close>: the rows changed before it stay changed.\<close>

fun wecp_update ::
  "urllib \<Rightarrow> (string \<times> wecp_item) list \<Rightarrow> (nat \<times> string) list \<Rightarrow> entry list \<times> nat
     \<Rightarrow> entry list \<times> nat option" where
  "wecp_update lib d [] (rows, batch_found) = (rows, Some batch_found)"
| "wecp_update lib d ((idx, url) # batch) (rows, batch_found) =
     (case map_of d url of
        None \<Rightarrow> wecp_update lib d batch (rows, batch_found)
      | Some result \<Rightarrow>
          (let website = strip (item_website result)
           in if website \<noteq> [] then
                (if idx < length rows then
                   wecp_update lib d batch
                     (rows[idx := AList.update ''website_domain_primary''
                                    (extract_domain lib website)
                                    (AList.update ''website_url_primary'' website (rows ! idx))],
                      batch_found + 1)
                 else (rows, None))
              else wecp_update lib d batch (rows, batch_found)))"

text \<open>The body of the loop: everything is inside \<^verbatim>\<open>try\<close>, and the handler prints the
  exception and goes on with the next batch. The status of the run is printed and not
  looked at again.\<close>

definition wecp_batch ::
  "urllib \<Rightarrow> string list \<Rightarrow> wecp_remote \<Rightarrow> (nat \<times> string) list \<Rightarrow> run_state \<Rightarrow> run_state" where
  "wecp_batch lib fieldnames r batch st =
     (case wecp_call r of
        Inl e \<Rightarrow> st
      | Inr status \<Rightarrow>
          (case wecp_items r of
             Inl e \<Rightarrow> st
           | Inr results \<Rightarrow>
               (case url_to_result results of
                  Inl e \<Rightarrow> st
                | Inr d \<Rightarrow>
                    (case wecp_update lib d batch (st_entries st, 0) of
                       (rows, None) \<Rightarrow> st\<lparr>st_entries := rows\<rparr>
                     | (rows, Some batch_found) \<Rightarrow>
                         (case save_csv_rescrape fieldnames rows of
                            Inl e \<Rightarrow> st\<lparr>st_entries := rows,
                                       st_total_found := st_total_found st + batch_found\<rparr>
                          | Inr file \<Rightarrow> \<lparr>st_entries = rows,
                                         st_total_found = st_total_found st + batch_found,
                                         st_saved = st_saved st @ [file]\<rparr>)))))"

definition wecp_batches ::
  "urllib \<Rightarrow> string list \<Rightarrow> (nat \<Rightarrow> wecp_remote) \<Rightarrow> (nat \<times> (nat \<times> string) list) list
     \<Rightarrow> run_state \<Rightarrow> run_state" where
  "wecp_batches lib fieldnames remotes batches st =
     fold (\<lambda>b st. wecp_batch lib fieldnames (remotes (fst b)) (snd b) st) batches st"

text \<open>Two answers of the service to the polling loop.\<close>

definition poll_error_then_succeeded :: "nat \<Rightarrow> poll" where
  "poll_error_then_succeeded k =
     (if k = 0 then PollError else PollInfo ''SUCCEEDED'' (Some ''Actor finished''))"

definition poll_running_then_failed :: "nat \<Rightarrow> poll" where
  "poll_running_then_failed k =
     (if k = 0 then PollInfo ''RUNNING'' (Some []) else PollInfo ''FAILED'' (Some ''Actor failed''))"

section \<open>Properties of the Domain Normalizer\<close>

lemma normalize_domain_Inr: "normalize_domain lib url = Inr (domain_of lib url)"
  by (simp add: normalize_domain_def domain_of_def Let_def split: sum.splits)

lemma strip_whitespace_only: "list_all isspace s \<Longrightarrow> strip s = []"
proof -
  assume "list_all isspace s"
  then have e: "dropWhile isspace s = []"
    by (induction s) auto
  show ?thesis
    unfolding strip_def e by simp
qed

text \<open>
  C2. The first test vector holds: the empty string is normalised to the empty string.
  The second does not: the scheme test \<^verbatim>\<open>url.startswith(("http://", "https://"))\<close> is
  case-sensitive, so \<^verbatim>\<open>"HTTP://WWW.Example.com:8080/x"\<close> gets \<^verbatim>\<open>"https://"\<close> put in
  front of it, its netloc is \<^verbatim>\<open>"HTTP:"\<close>, and the function returns \<^verbatim>\<open>"http"\<close>, not
  \<^verbatim>\<open>"example.com"\<close>. With the scheme in lower case the vector gives \<^verbatim>\<open>"example.com"\<close>.
\<close>

theorem normalize_domain_test_vectors:
  "normalize_domain lib '''' = Inr ''''
   \<and> normalize_domain lib ''HTTP://WWW.Example.com:8080/x'' = Inr ''http''
   \<and> normalize_domain lib ''http://WWW.Example.com:8080/x'' = Inr ''example.com''"
proof (intro conjI)
  show "normalize_domain lib '''' = Inr ''''"
    by (simp add: normalize_domain_def)
  have up: "urlparse_netloc lib ''https://HTTP://WWW.Example.com:8080/x'' = Inr ''HTTP:''"
    by (simp add: urlparse_netloc_def split_scheme_def splitnetloc_def Let_def
        unsafe_url_byte_def c0_control_or_space_def ascii_alpha_def scheme_char_def isascii_def)
  have lo: "lower ''HTTP:'' = ''http:''"
    unfolding lower_def by code_simp
  show "normalize_domain lib ''HTTP://WWW.Example.com:8080/x'' = Inr ''http''"
    by (simp add: normalize_domain_def normalize_domain_try_def up lo strip_def isspace_def
        startswith_def Let_def)
  have up2: "urlparse_netloc lib ''http://WWW.Example.com:8080/x'' = Inr ''WWW.Example.com:8080''"
    by (simp add: urlparse_netloc_def split_scheme_def splitnetloc_def Let_def
        unsafe_url_byte_def c0_control_or_space_def ascii_alpha_def scheme_char_def isascii_def)
  have lo2: "lower ''WWW.Example.com:8080'' = ''www.example.com:8080''"
    unfolding lower_def by code_simp
  show "normalize_domain lib ''http://WWW.Example.com:8080/x'' = Inr ''example.com''"
    by (simp add: normalize_domain_def normalize_domain_try_def up2 lo2 strip_def isspace_def
        startswith_def Let_def)
qed

text \<open>
  C8. The Domain Normalizer never raises: for every input string, whatever the two
  checks of the URL parser answer, it returns a string; for an empty string and for a
  string of whitespace only it returns the empty string.
\<close>

theorem normalize_domain_total:
  "(\<exists>d. normalize_domain lib url = Inr d)
   \<and> normalize_domain lib [] = Inr []
   \<and> (list_all isspace url \<longrightarrow> normalize_domain lib url = Inr [])"
proof (intro conjI impI)
  show "\<exists>d. normalize_domain lib url = Inr d"
    using normalize_domain_Inr by blast
  show "normalize_domain lib [] = Inr []"
    by (simp add: normalize_domain_def)
  show "normalize_domain lib url = Inr []" if "list_all isspace url"
    using that by (simp add: normalize_domain_def strip_whitespace_only)
qed

theorem normalize_domain_total_witness:
  "list_all isspace ''  '' \<and> normalize_domain permissive_urllib ''  '' = Inr []
   \<and> (\<exists>d. normalize_domain permissive_urllib ''  '' = Inr d)"
  using normalize_domain_total [of permissive_urllib "''  ''"]
  by (simp add: isspace_def)

section \<open>Properties of the Result Merger\<close>

subsection \<open>Dictionary updates\<close>

lemma get_str_update_other: "k' \<noteq> k \<Longrightarrow> get_str (AList.update k v al) k' = get_str al k'"
  by (simp add: get_str_def update_conv')

lemma get_str_update_same: "get_str (AList.update k v al) k = v"
  by (simp add: get_str_def update_conv')

lemma map_of_set_websites_other:
  "k \<notin> website_keys \<Longrightarrow> map_of (set_websites lib ws e) k = map_of e k"
  by (simp add: set_websites_def website_keys_def Let_def update_conv')

lemma get_str_set_websites_other:
  "k \<notin> website_keys \<Longrightarrow> get_str (set_websites lib ws e) k = get_str e k"
  by (simp add: get_str_def map_of_set_websites_other)

lemma merge_item_no_websites:
  "websites item = [] \<Longrightarrow> k \<noteq> ''phone'' \<Longrightarrow> k \<noteq> ''address'' \<Longrightarrow>
   map_of (merge_item lib item e) k = map_of e k"
  by (simp add: merge_item_def Let_def update_conv')

lemma merge_item_keeps_phone:
  "get_str e ''phone'' \<noteq> [] \<Longrightarrow> map_of (merge_item lib item e) ''phone'' = map_of e ''phone''"
  by (simp add: merge_item_def Let_def update_conv' get_str_set_websites_other website_keys_def
      map_of_set_websites_other)

lemma merge_item_keeps_address:
  "get_str e ''address'' \<noteq> [] \<Longrightarrow> map_of (merge_item lib item e) ''address'' = map_of e ''address''"
  by (simp add: merge_item_def Let_def update_conv' get_str_set_websites_other website_keys_def
      map_of_set_websites_other get_str_update_other)

subsection \<open>The two loops, entry by entry\<close>

text \<open>A property of one entry that every item filed under its position preserves
  holds after the loop of \<open>update_entries\<close>, and the list keeps its length.\<close>

lemma update_entries_loop_preserves:
  assumes "update_entries_loop lib rs (es, k) = Inr (es', n)"
    and "p < length es"
    and "\<And>idx item e. (idx, item) \<in> set rs \<Longrightarrow> py_index (length es) idx = Inr p \<Longrightarrow> Q e
           \<Longrightarrow> Q (merge_item lib item e)"
    and "Q (es ! p)"
  shows "Q (es' ! p) \<and> length es' = length es"
  using assms
proof (induction rs arbitrary: es k)
  case Nil
  then show ?case by simp
next
  case (Cons r rs)
  obtain idx item where r: "r = (idx, item)" by (cases r)
  show ?case
  proof (cases "websites item \<noteq> [] \<or> phone item \<noteq> [] \<or> address item \<noteq> []")
    case False
    with Cons.prems r have run: "update_entries_loop lib rs (es, k) = Inr (es', n)" by simp
    show ?thesis
      by (rule Cons.IH [OF run]) (use Cons.prems(2-4) in auto)
  next
    case True
    with Cons.prems(1) r obtain q where q: "py_index (length es) idx = Inr q"
      and run: "update_entries_loop lib rs (es[q := merge_item lib item (es ! q)],
                  (if websites item \<noteq> [] then k + 1 else k)) = Inr (es', n)"
      by (auto split: sum.splits)
    let ?es1 = "es[q := merge_item lib item (es ! q)]"
    have Q1: "Q (?es1 ! p)"
    proof (cases "q = p")
      case True
      have "Q (merge_item lib item (es ! p))"
        by (rule Cons.prems(3) [of idx item]) (use q r True Cons.prems(4) in auto)
      then show ?thesis
        using True Cons.prems(2) by simp
    next
      case False
      then show ?thesis using Cons.prems(4) by simp
    qed
    have "Q (es' ! p) \<and> length es' = length ?es1"
      by (rule Cons.IH [OF run]) (use Cons.prems(2,3) Q1 in auto)
    then show ?thesis by simp
  qed
qed

text \<open>The loop of \<open>update_entries_with_results\<close> applies \<open>update_entry\<close> to the entries
  of the range and leaves the others alone.\<close>

lemma update_entries_with_results_body_pair:
  "update_entries_with_results_body lib rs i (es, k) =
     (es[i := update_entry lib rs (es ! i)],
      (if websites (result_for rs (es ! i)) \<noteq> [] then k + 1 else k))"
  by (simp add: update_entries_with_results_body_def)

lemma fold_update_entries_with_results_body:
  "b \<le> length es \<Longrightarrow>
   fst (fold (update_entries_with_results_body lib rs) [a..<b] (es, k)) =
     map (\<lambda>p. if a \<le> p \<and> p < b then update_entry lib rs (es ! p) else es ! p) [0..<length es]"
proof (induction b)
  case 0
  then show ?case by (simp add: map_nth)
next
  case (Suc b)
  show ?case
  proof (cases "a \<le> b")
    case False
    then show ?thesis by (auto intro!: nth_equalityI)
  next
    case True
    obtain es1 k1 where st: "fold (update_entries_with_results_body lib rs) [a..<b] (es, k) = (es1, k1)"
      by (cases "fold (update_entries_with_results_body lib rs) [a..<b] (es, k)")
    from Suc have ih: "es1 = map (\<lambda>p. if a \<le> p \<and> p < b then update_entry lib rs (es ! p) else es ! p) [0..<length es]"
      using st by simp
    have len: "length es1 = length es" using ih by simp
    have b: "b < length es" using Suc.prems by simp
    have eb: "es1 ! b = es ! b" using ih b by simp
    have "fold (update_entries_with_results_body lib rs) [a..<Suc b] (es, k)
            = update_entries_with_results_body lib rs b (es1, k1)"
      using True st by simp
    then have "fst (fold (update_entries_with_results_body lib rs) [a..<Suc b] (es, k))
            = es1[b := update_entry lib rs (es ! b)]"
      by (simp add: update_entries_with_results_body_pair eb)
    also have "\<dots> = map (\<lambda>p. if a \<le> p \<and> p < Suc b then update_entry lib rs (es ! p) else es ! p)
                      [0..<length es]"
      using True b by (auto intro!: nth_equalityI simp: ih nth_list_update less_Suc_eq)
    finally show ?thesis .
  qed
qed

lemma update_entries_with_results_nth:
  "q < length es \<Longrightarrow>
   fst (update_entries_with_results lib es rs s e) ! q =
     (if s \<le> q \<and> q < e then update_entry lib rs (es ! q) else es ! q)"
  by (simp add: update_entries_with_results_def fold_update_entries_with_results_body)

lemma length_update_entries_with_results:
  "length (fst (update_entries_with_results lib es rs s e)) = length es"
  by (simp add: update_entries_with_results_def fold_update_entries_with_results_body)

text \<open>
  C1, as amended. In \<open>update_entries\<close> (the re-scrape of the entries without a website),
  whenever the merge returns, an entry for which every item filed under its position
  has no website keeps \<^verbatim>\<open>website_url_primary\<close> and \<^verbatim>\<open>website_domain_primary\<close> as
  they were. In \<open>update_entries_with_results\<close> (the first pass over the detail pages) an
  entry of the batch range whose result has no website, or that has no result, gets
  both fields set to the empty string.
\<close>

theorem website_fields_without_websites:
  "(update_entries lib entries results = Inr (entries', n) \<and> p < length entries
      \<and> (\<forall>(idx, item) \<in> set results.
             py_index (length entries) idx = Inr p \<longrightarrow> websites item = [])
    \<longrightarrow> map_of (entries' ! p) ''website_url_primary'' = map_of (entries ! p) ''website_url_primary''
        \<and> map_of (entries' ! p) ''website_domain_primary''
            = map_of (entries ! p) ''website_domain_primary'')
   \<and> (s \<le> q \<and> q < min e (length ents) \<and> websites (result_for res (ents ! q)) = []
    \<longrightarrow> map_of (fst (update_entries_with_results lib ents res s e) ! q) ''website_url_primary''
          = Some []
        \<and> map_of (fst (update_entries_with_results lib ents res s e) ! q) ''website_domain_primary''
          = Some [])"
proof (intro conjI impI)
  assume a: "update_entries lib entries results = Inr (entries', n) \<and> p < length entries
      \<and> (\<forall>(idx, item) \<in> set results.
             py_index (length entries) idx = Inr p \<longrightarrow> websites item = [])"
  let ?Q = "\<lambda>e. map_of e ''website_url_primary'' = map_of (entries ! p) ''website_url_primary''
       \<and> map_of e ''website_domain_primary'' = map_of (entries ! p) ''website_domain_primary''"
  have "?Q (entries' ! p) \<and> length entries' = length entries"
  proof (rule update_entries_loop_preserves [where Q = ?Q and k = 0 and n = n and rs = results and lib = lib])
    show "update_entries_loop lib results (entries, 0) = Inr (entries', n)"
      using a by (simp add: update_entries_def)
    show "p < length entries" using a by simp
    show "?Q (entries ! p)" by simp
    fix idx item e
    assume "(idx, item) \<in> set results" "py_index (length entries) idx = Inr p" "?Q e"
    moreover from this a have "websites item = []" by auto
    ultimately show "?Q (merge_item lib item e)"
      by (simp add: merge_item_no_websites)
  qed
  then show "map_of (entries' ! p) ''website_url_primary'' = map_of (entries ! p) ''website_url_primary''"
    and "map_of (entries' ! p) ''website_domain_primary'' = map_of (entries ! p) ''website_domain_primary''"
    by simp_all
next
  assume b: "s \<le> q \<and> q < min e (length ents) \<and> websites (result_for res (ents ! q)) = []"
  then have nth: "fst (update_entries_with_results lib ents res s e) ! q = update_entry lib res (ents ! q)"
    by (simp add: update_entries_with_results_nth)
  show "map_of (fst (update_entries_with_results lib ents res s e) ! q) ''website_url_primary'' = Some []"
    using b unfolding nth by (simp add: update_entry_def Let_def update_conv')
  show "map_of (fst (update_entries_with_results lib ents res s e) ! q) ''website_domain_primary'' = Some []"
    using b unfolding nth by (simp add: update_entry_def Let_def update_conv')
qed

theorem website_fields_without_websites_witness:
  "update_entries permissive_urllib
      [[(''detail_url'', ''u''), (''website_url_primary'', ''http://a.com''),
        (''website_domain_primary'', ''a.com'')]]
      [(0, \<lparr>detail_url = ''u'', entryIndex = Some 0, websites = [], phone = ''555-1234'',
            address = []\<rparr>)]
    = Inr ([[(''detail_url'', ''u''), (''website_url_primary'', ''http://a.com''),
             (''website_domain_primary'', ''a.com''), (''phone'', ''555-1234'')]], 0)
   \<and> map_of [(''detail_url'', ''u''), (''website_url_primary'', ''http://a.com''),
             (''website_domain_primary'', ''a.com''), (''phone'', ''555-1234'')]
        ''website_url_primary'' = Some ''http://a.com''
   \<and> map_of (fst (update_entries_with_results permissive_urllib
                     [[(''detail_url'', ''u''), (''website_url_primary'', ''http://a.com'')]]
                     [] 0 1) ! 0) ''website_url_primary'' = Some []"
  using website_fields_without_websites [of permissive_urllib
      "[[(''detail_url'', ''u''), (''website_url_primary'', ''http://a.com''),
         (''website_domain_primary'', ''a.com'')]]"
      "[(0, \<lparr>detail_url = ''u'', entryIndex = Some 0, websites = [], phone = ''555-1234'',
            address = []\<rparr>)]"
      "[[(''detail_url'', ''u''), (''website_url_primary'', ''http://a.com''),
         (''website_domain_primary'', ''a.com''), (''phone'', ''555-1234'')]]"
      0 0 0 0 1
      "[[(''detail_url'', ''u''), (''website_url_primary'', ''http://a.com'')]]" "[]"]
  by (simp add: update_entries_def py_index_def merge_item_def get_str_def result_for_def
      no_result_def)

text \<open>
  C1 as stated fails in \<open>update_entries_with_results\<close>: an entry with a website whose
  result has no website loses it.
\<close>

theorem detail_scraper_clears_website_counterexample:
  "map_of (fst (update_entries_with_results permissive_urllib
                  [[(''detail_url'', ''u''), (''website_url_primary'', ''http://a.com''),
                    (''website_domain_primary'', ''a.com'')]]
                  [(''u'', \<lparr>detail_url = ''u'', entryIndex = Some 0, websites = [],
                            phone = [], address = []\<rparr>)] 0 1) ! 0)
      ''website_url_primary'' = Some []
   \<and> map_of [(''detail_url'', ''u''), (''website_url_primary'', ''http://a.com''),
             (''website_domain_primary'', ''a.com'')] ''website_url_primary''
      = Some ''http://a.com''"
  by (simp add: update_entries_with_results_def update_entries_with_results_body_def
      update_entry_def result_for_def get_str_def)

text \<open>
  C3, as amended. In \<open>update_entries\<close>, whenever the merge returns, an entry whose phone
  is not empty keeps its phone whatever the items hold (an empty phone or another one),
  and the same for the address. In \<open>update_entries_with_results\<close> the phone and the
  address of every entry of the batch range are set to those of its result (the empty
  string when it has none).
\<close>

theorem phone_address_fill_only_if_empty:
  "(update_entries lib entries results = Inr (entries', n) \<and> p < length entries
    \<longrightarrow> (get_str (entries ! p) ''phone'' \<noteq> []
           \<longrightarrow> map_of (entries' ! p) ''phone'' = map_of (entries ! p) ''phone'')
        \<and> (get_str (entries ! p) ''address'' \<noteq> []
           \<longrightarrow> map_of (entries' ! p) ''address'' = map_of (entries ! p) ''address''))
   \<and> (s \<le> q \<and> q < min e (length ents)
    \<longrightarrow> map_of (fst (update_entries_with_results lib ents res s e) ! q) ''phone''
          = Some (phone (result_for res (ents ! q)))
        \<and> map_of (fst (update_entries_with_results lib ents res s e) ! q) ''address''
          = Some (address (result_for res (ents ! q))))"
proof (intro conjI impI)
  assume a: "update_entries lib entries results = Inr (entries', n) \<and> p < length entries"
  then have run: "update_entries_loop lib results (entries, 0) = Inr (entries', n)"
    and p: "p < length entries"
    by (simp_all add: update_entries_def)
  show "map_of (entries' ! p) ''phone'' = map_of (entries ! p) ''phone''"
    if ne: "get_str (entries ! p) ''phone'' \<noteq> []"
  proof -
    let ?Q = "\<lambda>e. map_of e ''phone'' = map_of (entries ! p) ''phone''"
    have "?Q (entries' ! p) \<and> length entries' = length entries"
    proof (rule update_entries_loop_preserves [OF run p, where Q = ?Q])
      show "?Q (entries ! p)" by simp
      fix idx item e
      assume q: "?Q e"
      then have "get_str e ''phone'' \<noteq> []"
        using ne by (simp add: get_str_def)
      then show "?Q (merge_item lib item e)"
        using q by (simp add: merge_item_keeps_phone)
    qed
    then show ?thesis by simp
  qed
  show "map_of (entries' ! p) ''address'' = map_of (entries ! p) ''address''"
    if ne: "get_str (entries ! p) ''address'' \<noteq> []"
  proof -
    let ?Q = "\<lambda>e. map_of e ''address'' = map_of (entries ! p) ''address''"
    have "?Q (entries' ! p) \<and> length entries' = length entries"
    proof (rule update_entries_loop_preserves [OF run p, where Q = ?Q])
      show "?Q (entries ! p)" by simp
      fix idx item e
      assume q: "?Q e"
      then have "get_str e ''address'' \<noteq> []"
        using ne by (simp add: get_str_def)
      then show "?Q (merge_item lib item e)"
        using q by (simp add: merge_item_keeps_address)
    qed
    then show ?thesis by simp
  qed
next
  assume b: "s \<le> q \<and> q < min e (length ents)"
  then have nth: "fst (update_entries_with_results lib ents res s e) ! q = update_entry lib res (ents ! q)"
    by (simp add: update_entries_with_results_nth)
  show "map_of (fst (update_entries_with_results lib ents res s e) ! q) ''phone''
          = Some (phone (result_for res (ents ! q)))"
    unfolding nth by (simp add: update_entry_def Let_def update_conv')
  show "map_of (fst (update_entries_with_results lib ents res s e) ! q) ''address''
          = Some (address (result_for res (ents ! q)))"
    unfolding nth by (simp add: update_entry_def Let_def update_conv')
qed

theorem phone_address_fill_only_if_empty_witness:
  "update_entries permissive_urllib
      [[(''detail_url'', ''u''), (''phone'', ''555-1234''), (''address'', ''1 Main St'')]]
      [(0, \<lparr>detail_url = ''u'', entryIndex = Some 0, websites = [], phone = ''555-9999'',
            address = []\<rparr>)]
    = Inr ([[(''detail_url'', ''u''), (''phone'', ''555-1234''), (''address'', ''1 Main St'')]], 0)
   \<and> map_of (fst (update_entries_with_results permissive_urllib
                     [[(''detail_url'', ''u''), (''phone'', ''555-1234'')]] [] 0 1) ! 0) ''phone''
      = Some []"
  using phone_address_fill_only_if_empty [of permissive_urllib
      "[[(''detail_url'', ''u''), (''phone'', ''555-1234''), (''address'', ''1 Main St'')]]"
      "[(0, \<lparr>detail_url = ''u'', entryIndex = Some 0, websites = [], phone = ''555-9999'',
            address = []\<rparr>)]"
      "[[(''detail_url'', ''u''), (''phone'', ''555-1234''), (''address'', ''1 Main St'')]]"
      0 0 0 0 1 "[[(''detail_url'', ''u''), (''phone'', ''555-1234'')]]" "[]"]
  by (simp add: update_entries_def py_index_def merge_item_def get_str_def result_for_def
      no_result_def)

text \<open>
  C3 as stated fails in \<open>update_entries_with_results\<close>: a stored phone is replaced by the
  empty phone of the result, and by another phone of the result.
\<close>

theorem detail_scraper_overwrites_phone_counterexample:
  "map_of (fst (update_entries_with_results permissive_urllib
                  [[(''detail_url'', ''u''), (''phone'', ''555-1234'')]]
                  [(''u'', \<lparr>detail_url = ''u'', entryIndex = Some 0, websites = [],
                            phone = [], address = []\<rparr>)] 0 1) ! 0) ''phone'' = Some []
   \<and> map_of (fst (update_entries_with_results permissive_urllib
                  [[(''detail_url'', ''u''), (''phone'', ''555-1234'')]]
                  [(''u'', \<lparr>detail_url = ''u'', entryIndex = Some 0, websites = [],
                            phone = ''555-9999'', address = []\<rparr>)] 0 1) ! 0) ''phone''
      = Some ''555-9999''"
  by (simp add: update_entries_with_results_def update_entries_with_results_body_def
      update_entry_def result_for_def get_str_def)


section \<open>Properties of the Batch Planner\<close>

lemma ceil_div_nat:
  assumes B: "0 < (B::nat)"
  shows "(n + B - 1) div B = (if n mod B = 0 then n div B else n div B + 1)"
proof -
  define q where "q = n div B"
  define r where "r = n mod B"
  have n: "n = B * q + r" and r: "r < B"
    using B by (simp_all add: q_def r_def)
  show ?thesis
  proof (cases "r = 0")
    case True
    have "(n + B - 1) div B = q"
      by (rule div_nat_eqI) (use n r B True in \<open>simp_all add: algebra_simps\<close>)
    then show ?thesis using True by (simp add: q_def r_def)
  next
    case False
    have "(n + B - 1) div B = q + 1"
      by (rule div_nat_eqI) (use n r B False in \<open>simp_all add: algebra_simps\<close>)
    then show ?thesis using False by (simp add: q_def r_def)
  qed
qed

lemma ceiling_nat_div:
  assumes B: "0 < (B::nat)"
  shows "nat \<lceil>real n / real B\<rceil> = (n + B - 1) div B"
proof -
  have "\<lceil>real_of_int (int n) / real_of_int (int B)\<rceil> = - ((- int n) div int B)"
    by (simp only: ceiling_divide_eq_div)
  then have c: "\<lceil>real n / real B\<rceil> = - ((- int n) div int B)" by simp
  have "- ((- int n) div int B) = (if int n mod int B = 0 then int n div int B else int n div int B + 1)"
    using B by (simp add: zdiv_zminus1_eq_if)
  also have "\<dots> = int (if n mod B = 0 then n div B else n div B + 1)"
    by (simp flip: of_nat_mod of_nat_div)
  also have "\<dots> = int ((n + B - 1) div B)"
    using ceil_div_nat [OF B, of n] by simp
  finally show ?thesis using c by simp
qed


lemma total_batches_div: "0 < B \<Longrightarrow> total_batches n B = (n + B - 1) div B"
  by (simp add: total_batches_def ceiling_nat_div)

lemma total_batches_cases:
  assumes B: "0 < B"
  shows "total_batches n B = (if n mod B = 0 then n div B else n div B + 1)"
  using ceil_div_nat [OF B, of n] total_batches_div [OF B, of n] by simp

lemma total_batches_covers:
  assumes B: "0 < B"
  shows "n \<le> total_batches n B * B"
proof (cases "n mod B = 0")
  case True
  have "n = n div B * B + n mod B" by simp
  then have "n = n div B * B" using True by simp
  then show ?thesis
    using B True by (simp add: total_batches_cases)
next
  case False
  have "n = n div B * B + n mod B" by simp
  moreover have "n mod B < B" using B by simp
  ultimately have "n \<le> n div B * B + B" by linarith
  then show ?thesis
    using B False by (simp add: total_batches_cases)
qed

lemma total_batches_tight:
  assumes B: "0 < B" and k: "Suc k < total_batches n B"
  shows "Suc k * B \<le> n"
proof -
  have "Suc k \<le> n div B"
    using k B by (simp add: total_batches_cases split: if_splits)
  then have "Suc k * B \<le> n div B * B"
    by (rule mult_le_mono1)
  also have "\<dots> \<le> n" by simp
  finally show ?thesis .
qed

lemma total_batches_last:
  assumes B: "0 < B" and k: "Suc k = total_batches n B"
  shows "n - k * B = (if n mod B = 0 then B else n mod B)"
proof (cases "n mod B = 0")
  case True
  then have "Suc k = n div B"
    using k B by (simp add: total_batches_cases)
  then have "Suc k * B = n"
    using True by (metis div_mult_mod_eq add.right_neutral)
  then show ?thesis using True by simp
next
  case False
  then have "k = n div B"
    using k B by (simp add: total_batches_cases)
  then have "n = k * B + n mod B"
    by simp
  then have "n - k * B = n mod B" by linarith
  then show ?thesis using False by simp
qed

lemma slice_chunk:
  "slice xs s (min (s + B) (length xs)) = take B (drop s xs)"
  by (cases "s + B \<le> length xs") (simp_all add: slice_def min_def)

lemma plan_batches_chunks:
  "plan_batches B xs = map (\<lambda>k. take B (drop (k * B) xs)) [0..<total_batches (length xs) B]"
proof -
  have "[1..<total_batches (length xs) B + 1] = map Suc [0..<total_batches (length xs) B]"
    by (simp add: map_Suc_upt)
  then show ?thesis
    by (simp add: plan_batches_def slice_chunk Let_def comp_def)
qed

lemma plan_batches_wecp_chunks:
  "plan_batches_wecp B xs = map (\<lambda>k. take B (drop (k * B) xs)) [0..<total_batches (length xs) B]"
  by (simp add: plan_batches_wecp_def slice_chunk Let_def)

lemma concat_take_chunks:
  "concat (map (\<lambda>k. take B (drop (k * B) xs)) [0..<m]) = take (m * B) xs"
proof (induction m)
  case 0
  then show ?case by simp
next
  case (Suc m)
  have "take (m * B) xs @ take B (drop (m * B) xs) = take (m * B + B) xs"
    by (simp add: take_add)
  then show ?case using Suc by (simp add: add.commute)
qed

lemma take_upt_min: "take B [s..<n] = [s..<min (s + B) n]"
proof (cases "s + B \<le> n")
  case True
  then show ?thesis by (simp add: take_upt)
next
  case False
  then show ?thesis by (simp add: min_def)
qed

lemma plan_batch_ranges_chunks:
  "map (batch_range_indices n) (plan_batch_ranges B n)
     = map (\<lambda>k. take B (drop (k * B) [0..<n])) [0..<total_batches n B]"
proof -
  have "[1..<total_batches n B + 1] = map Suc [0..<total_batches n B]"
    by (simp add: map_Suc_upt)
  then show ?thesis
    by (simp add: plan_batch_ranges_def batch_range_indices_def take_upt_min Let_def comp_def)
qed

text \<open>
  C4. For a work list of length \<open>N\<close> and a batch size \<open>B > 0\<close> the planner of
  \<^verbatim>\<open>enf_rescrape_missing.py\<close> produces \<open>ceil(N/B)\<close> batches, their concatenation
  is the work list, and every batch has \<open>B\<close> items but the last, which has
  \<open>N mod B\<close> when that is not zero. The planner of \<^verbatim>\<open>enf_rescrape_wecp.py\<close> produces
  the same batches, and the index ranges of \<^verbatim>\<open>enf_detail_scraper.py\<close> are the batches of
  the positions \<open>0, \<dots>, N - 1\<close>.
\<close>

theorem batch_planner:
  "0 < B \<Longrightarrow>
     length (plan_batches B xs) = nat \<lceil>real (length xs) / real B\<rceil>
   \<and> concat (plan_batches B xs) = xs
   \<and> (\<forall>k < length (plan_batches B xs).
         length (plan_batches B xs ! k) =
           (if Suc k < length (plan_batches B xs) \<or> length xs mod B = 0 then B
            else length xs mod B))
   \<and> plan_batches_wecp B xs = plan_batches B xs
   \<and> map (batch_range_indices (length xs)) (plan_batch_ranges B (length xs))
       = plan_batches B [0..<length xs]"
proof (intro conjI allI impI)
  assume B: "0 < B"
  let ?m = "total_batches (length xs) B"
  show "length (plan_batches B xs) = nat \<lceil>real (length xs) / real B\<rceil>"
    by (simp add: plan_batches_chunks) (simp add: total_batches_def)
  show "concat (plan_batches B xs) = xs"
    using total_batches_covers [OF B, of "length xs"]
    by (simp add: plan_batches_chunks concat_take_chunks)
  show "plan_batches_wecp B xs = plan_batches B xs"
    by (simp add: plan_batches_chunks plan_batches_wecp_chunks)
  show "map (batch_range_indices (length xs)) (plan_batch_ranges B (length xs))
       = plan_batches B [0..<length xs]"
    by (simp add: plan_batches_chunks plan_batch_ranges_chunks)
  fix k
  assume "k < length (plan_batches B xs)"
  then have k: "k < ?m" by (simp add: plan_batches_chunks)
  have len: "length (plan_batches B xs ! k) = min (length xs - k * B) B"
    using k by (simp add: plan_batches_chunks)
  show "length (plan_batches B xs ! k) =
           (if Suc k < length (plan_batches B xs) \<or> length xs mod B = 0 then B
            else length xs mod B)"
  proof (cases "Suc k < ?m")
    case True
    from total_batches_tight [OF B True] have "B \<le> length xs - k * B" by simp
    then show ?thesis using True len by (simp add: plan_batches_chunks)
  next
    case False
    with k have "Suc k = ?m" by simp
    from total_batches_last [OF B this]
    have "length xs - k * B = (if length xs mod B = 0 then B else length xs mod B)" .
    moreover have "length xs mod B < B" using B by simp
    ultimately show ?thesis using False len by (simp add: plan_batches_chunks)
  qed
qed

theorem batch_planner_witness:
  "(0::nat) < 2 \<and> plan_batches 2 [10, 11, 12, 13, 14 :: nat] = [[10, 11], [12, 13], [14]]
   \<and> concat (plan_batches 2 [10, 11, 12, 13, 14 :: nat]) = [10, 11, 12, 13, 14]
   \<and> length (plan_batches 2 [10, 11, 12, 13, 14 :: nat]) = nat \<lceil>real (length [10, 11, 12, 13, 14 :: nat]) / real (2::nat)\<rceil>"
  using batch_planner [of 2 "[10, 11, 12, 13, 14 :: nat]"]
  by (simp add: plan_batches_chunks total_batches_div upt_rec)


section \<open>Properties of the submitted URLs\<close>

lemma prepare_urls_loop_valid:
  "\<forall>idx \<in> set indices. 0 \<le> idx \<and> idx < int (length entries) \<Longrightarrow>
   prepare_urls_loop entries indices urls =
     Inr (urls @ map (\<lambda>idx. \<lparr>req_url = get_str (entries ! nat idx) ''detail_url'',
                             req_method = ''GET'', user_entryIndex = idx,
                             user_company_name = None\<rparr>)
                     (filter (\<lambda>idx. get_str (entries ! nat idx) ''detail_url'' \<noteq> []) indices))"
proof (induction indices arbitrary: urls)
  case Nil
  then show ?case by simp
next
  case (Cons idx indices)
  then have "py_index (length entries) idx = Inr (nat idx)"
    by (simp add: py_index_def)
  then show ?case
    using Cons by (simp add: Let_def)
qed

lemma fold_append_if:
  "fold (\<lambda>i acc. if P i then acc @ [f i] else acc) xs acc = acc @ map f (filter P xs)"
  by (induction xs arbitrary: acc) simp_all

lemma prepare_urls_for_batch_eq:
  "prepare_urls_for_batch entries start_idx end_idx =
     map (\<lambda>i. \<lparr>req_url = get_str (entries ! i) ''detail_url'', req_method = ''GET'',
                user_entryIndex = int i,
                user_company_name = Some (get_str (entries ! i) ''company_name'')\<rparr>)
         (filter (\<lambda>i. get_str (entries ! i) ''detail_url'' \<noteq> [])
                 [start_idx ..< min end_idx (length entries)])"
  unfolding prepare_urls_for_batch_def Let_def
  by (simp only: fold_append_if append_Nil)

text \<open>
  C9. \<open>prepare_urls\<close>, given positions of the list, never raises and submits exactly the
  entries of the batch whose \<^verbatim>\<open>detail_url\<close> is present and not empty, in order;
  \<open>prepare_urls_for_batch\<close> does the same for the positions of its range. An entry
  without a \<^verbatim>\<open>detail_url\<close> is left out and the others are still submitted.
\<close>

theorem prepare_urls_skips_missing_detail_url:
  "((\<forall>idx \<in> set indices. 0 \<le> idx \<and> idx < int (length entries)) \<longrightarrow>
      prepare_urls entries indices =
        Inr (map (\<lambda>idx. \<lparr>req_url = get_str (entries ! nat idx) ''detail_url'',
                          req_method = ''GET'', user_entryIndex = idx,
                          user_company_name = None\<rparr>)
                 (filter (\<lambda>idx. get_str (entries ! nat idx) ''detail_url'' \<noteq> []) indices)))
   \<and> prepare_urls_for_batch entries start_idx end_idx =
       map (\<lambda>i. \<lparr>req_url = get_str (entries ! i) ''detail_url'', req_method = ''GET'',
                  user_entryIndex = int i,
                  user_company_name = Some (get_str (entries ! i) ''company_name'')\<rparr>)
           (filter (\<lambda>i. get_str (entries ! i) ''detail_url'' \<noteq> [])
                   [start_idx ..< min end_idx (length entries)])"
  by (simp add: prepare_urls_def prepare_urls_loop_valid prepare_urls_for_batch_eq)

theorem prepare_urls_skips_missing_detail_url_witness:
  "length [[(''detail_url'', ''u0'')], [(''company_name'', ''B'')], [(''detail_url'', '''')]] = 3
   \<and> prepare_urls [[(''detail_url'', ''u0'')], [(''company_name'', ''B'')],
                    [(''detail_url'', '''')]] [0, 1, 2]
      = Inr [\<lparr>req_url = ''u0'', req_method = ''GET'', user_entryIndex = 0,
               user_company_name = None\<rparr>]"
  using prepare_urls_skips_missing_detail_url
    [of "[0, 1, 2]" "[[(''detail_url'', ''u0'')], [(''company_name'', ''B'')],
                       [(''detail_url'', '''')]]"]
  by (simp add: get_str_def)

section \<open>Properties of the deduplication\<close>

lemma first_occurrence_append:
  "i < length xs \<Longrightarrow> first_occurrence (xs @ [x]) i = first_occurrence xs i"
  by (simp add: first_occurrence_def nth_append)

lemma first_occurrence_last:
  "first_occurrence (xs @ [x]) (length xs) =
     (get_str x ''detail_url'' = []
      \<or> get_str x ''detail_url'' \<notin> (\<lambda>inst. get_str inst ''detail_url'') ` set xs)"
  by (simp add: first_occurrence_def)

lemma kept_append:
  "map ((!) (xs @ [x])) (filter (first_occurrence (xs @ [x])) [0..<length xs])
     = map ((!) xs) (filter (first_occurrence xs) [0..<length xs])"
proof -
  have "filter (first_occurrence (xs @ [x])) [0..<length xs]
          = filter (first_occurrence xs) [0..<length xs]"
    by (rule filter_cong) (simp_all add: first_occurrence_append)
  moreover have "map ((!) (xs @ [x])) (filter (first_occurrence xs) [0..<length xs])
          = map ((!) xs) (filter (first_occurrence xs) [0..<length xs])"
    by (rule map_cong) (simp_all add: nth_append)
  ultimately show ?thesis by simp
qed

lemma fold_dedupe_step:
  "fold dedupe_step xs ({}, []) =
     ({u. u \<noteq> [] \<and> u \<in> (\<lambda>inst. get_str inst ''detail_url'') ` set xs},
      map ((!) xs) (filter (first_occurrence xs) [0..<length xs]))"
proof (induction xs rule: rev_induct)
  case Nil
  then show ?case by simp
next
  case (snoc x xs)
  let ?u = "get_str x ''detail_url''"
  let ?S = "{u. u \<noteq> [] \<and> u \<in> (\<lambda>inst. get_str inst ''detail_url'') ` set xs}"
  let ?U = "map ((!) xs) (filter (first_occurrence xs) [0..<length xs])"
  have step: "fold dedupe_step (xs @ [x]) ({}, []) = dedupe_step x (?S, ?U)"
    using snoc by simp
  have S': "{u. u \<noteq> [] \<and> u \<in> (\<lambda>inst. get_str inst ''detail_url'') ` set (xs @ [x])}
              = (if ?u \<noteq> [] then insert ?u ?S else ?S)"
    by auto
  have U': "map ((!) (xs @ [x])) (filter (first_occurrence (xs @ [x])) [0..<length (xs @ [x])])
              = (if first_occurrence (xs @ [x]) (length xs) then ?U @ [x] else ?U)"
    by (simp add: kept_append)
  show ?case
    unfolding step S' U' first_occurrence_last
    by (auto simp: dedupe_step_def Let_def)
qed

text \<open>
  C10. The records \<open>save_to_csv\<close> keeps are, in the order of the input, the records
  with an empty \<^verbatim>\<open>detail_url\<close> and the first record of every other \<^verbatim>\<open>detail_url\<close>;
  the file has one row for each of them, in that order.
\<close>

theorem save_to_csv_keeps_first_occurrences:
  "snd (save_to_csv installers)
     = map ((!) installers) (filter (first_occurrence installers) [0..<length installers])
   \<and> snd (fst (save_to_csv installers))
     = map (\<lambda>installer. map (\<lambda>k. get_str installer k) listing_fieldnames)
           (map ((!) installers)
                (filter (first_occurrence installers) [0..<length installers]))"
  by (simp add: save_to_csv_def fold_dedupe_step Let_def)

theorem save_to_csv_keeps_first_occurrences_witness:
  "snd (save_to_csv [[(''company_name'', ''A''), (''detail_url'', ''u1'')],
                     [(''company_name'', ''B''), (''detail_url'', '''')],
                     [(''company_name'', ''C''), (''detail_url'', ''u1'')],
                     [(''company_name'', ''D'')]])
     = [[(''company_name'', ''A''), (''detail_url'', ''u1'')],
        [(''company_name'', ''B''), (''detail_url'', '''')],
        [(''company_name'', ''D'')]]"
  using save_to_csv_keeps_first_occurrences
    [of "[[(''company_name'', ''A''), (''detail_url'', ''u1'')],
          [(''company_name'', ''B''), (''detail_url'', '''')],
          [(''company_name'', ''C''), (''detail_url'', ''u1'')],
          [(''company_name'', ''D'')]]"]
  by (simp add: first_occurrence_def get_str_def upt_rec)


section \<open>Properties of the Record Store header\<close>

lemma fold_append_new:
  "distinct ys \<Longrightarrow>
   fold (\<lambda>col fieldnames. if col \<notin> set fieldnames then fieldnames @ [col] else fieldnames) ys fs
     = fs @ filter (\<lambda>c. c \<notin> set fs) ys"
proof (induction ys arbitrary: fs)
  case Nil
  then show ?case by simp
next
  case (Cons y ys)
  have same: "filter (\<lambda>c. c \<notin> set (fs @ [y])) ys = filter (\<lambda>c. c \<notin> set fs) ys"
    by (rule filter_cong) (use Cons.prems in auto)
  show ?case
  proof (cases "y \<in> set fs")
    case True
    then show ?thesis using Cons by simp
  next
    case False
    then show ?thesis using Cons same by simp
  qed
qed

lemma distinct_base_cols: "distinct base_cols"
  by (simp add: base_cols_def)

lemma get_fieldnames_eq:
  "distinct (set_iter (entry_keys entries)) \<Longrightarrow>
   get_fieldnames set_iter entries
     = base_cols @ filter (\<lambda>c. c \<notin> set base_cols) (set_iter (entry_keys entries))"
  by (simp add: get_fieldnames_def Let_def fold_append_new)

text \<open>
  C7, as amended. Whenever the set of keys is visited without repetition, the header
  \<open>save_csv\<close> writes starts with the twelve base fields in their fixed order, whether
  or not an entry has them, and goes on with every other key of the entries, once
  each, in the order in which the set is visited. That order is a function of the
  set and the process, not the order in which the keys are first seen.
\<close>

theorem get_fieldnames_base_first:
  "distinct (set_iter (entry_keys entries))
   \<and> set (set_iter (entry_keys entries)) = set (entry_keys entries) \<and> entries \<noteq> [] \<longrightarrow>
     get_fieldnames set_iter entries
       = base_cols @ filter (\<lambda>c. c \<notin> set base_cols) (set_iter (entry_keys entries))
   \<and> distinct (get_fieldnames set_iter entries)
   \<and> set (get_fieldnames set_iter entries) = set base_cols \<union> set (entry_keys entries)
   \<and> map_option fst (save_csv set_iter entries)
       = Some (base_cols @ filter (\<lambda>c. c \<notin> set base_cols) (set_iter (entry_keys entries)))"
proof (intro impI)
  assume a: "distinct (set_iter (entry_keys entries))
   \<and> set (set_iter (entry_keys entries)) = set (entry_keys entries) \<and> entries \<noteq> []"
  then have eq: "get_fieldnames set_iter entries
       = base_cols @ filter (\<lambda>c. c \<notin> set base_cols) (set_iter (entry_keys entries))"
    by (simp add: get_fieldnames_eq)
  have d: "distinct (get_fieldnames set_iter entries)"
    unfolding eq using a distinct_base_cols by auto
  have s: "set (get_fieldnames set_iter entries) = set base_cols \<union> set (entry_keys entries)"
    unfolding eq using a by auto
  have f: "map_option fst (save_csv set_iter entries)
       = Some (base_cols @ filter (\<lambda>c. c \<notin> set base_cols) (set_iter (entry_keys entries)))"
    using a by (simp add: save_csv_def Let_def eq)
  from eq d s f show "get_fieldnames set_iter entries
       = base_cols @ filter (\<lambda>c. c \<notin> set base_cols) (set_iter (entry_keys entries))
   \<and> distinct (get_fieldnames set_iter entries)
   \<and> set (get_fieldnames set_iter entries) = set base_cols \<union> set (entry_keys entries)
   \<and> map_option fst (save_csv set_iter entries)
       = Some (base_cols @ filter (\<lambda>c. c \<notin> set base_cols) (set_iter (entry_keys entries)))"
    by blast
qed

theorem get_fieldnames_base_first_witness:
  "distinct (reversed_set_iter (entry_keys
       [[(''company_name'', ''A''), (''zeta'', ''1''), (''alpha'', ''2'')]]))
   \<and> set (reversed_set_iter (entry_keys
       [[(''company_name'', ''A''), (''zeta'', ''1''), (''alpha'', ''2'')]]))
       = set (entry_keys [[(''company_name'', ''A''), (''zeta'', ''1''), (''alpha'', ''2'')]])
   \<and> get_fieldnames reversed_set_iter
       [[(''company_name'', ''A''), (''zeta'', ''1''), (''alpha'', ''2'')]]
       = base_cols @ [''alpha'', ''zeta'']"
proof -
  have h: "distinct (reversed_set_iter (entry_keys
       [[(''company_name'', ''A''), (''zeta'', ''1''), (''alpha'', ''2'')]]))
   \<and> set (reversed_set_iter (entry_keys
       [[(''company_name'', ''A''), (''zeta'', ''1''), (''alpha'', ''2'')]]))
       = set (entry_keys [[(''company_name'', ''A''), (''zeta'', ''1''), (''alpha'', ''2'')]])"
    by (auto simp: reversed_set_iter_def entry_keys_def)
  show ?thesis
    using h get_fieldnames_base_first [of reversed_set_iter
      "[[(''company_name'', ''A''), (''zeta'', ''1''), (''alpha'', ''2'')]]"]
    by (simp add: reversed_set_iter_def entry_keys_def base_cols_def)
qed

text \<open>
  C7 as stated fails: with a set visited in the reverse of the order of arrival, the
  keys \<^verbatim>\<open>zeta\<close> and \<^verbatim>\<open>alpha\<close>, first seen in this order, come out as \<^verbatim>\<open>alpha\<close>,
  \<^verbatim>\<open>zeta\<close>.
\<close>

theorem get_fieldnames_not_first_seen_counterexample:
  "get_fieldnames reversed_set_iter
       [[(''company_name'', ''A''), (''zeta'', ''1''), (''alpha'', ''2'')]]
     = base_cols @ [''alpha'', ''zeta'']
   \<and> first_seen_fieldnames [[(''company_name'', ''A''), (''zeta'', ''1''), (''alpha'', ''2'')]]
     = base_cols @ [''zeta'', ''alpha'']
   \<and> get_fieldnames reversed_set_iter
       [[(''company_name'', ''A''), (''zeta'', ''1''), (''alpha'', ''2'')]]
     \<noteq> first_seen_fieldnames [[(''company_name'', ''A''), (''zeta'', ''1''), (''alpha'', ''2'')]]"
  by (simp add: get_fieldnames_def first_seen_fieldnames_def first_seen_def
      reversed_set_iter_def entry_keys_def base_cols_def)


section \<open>Merging the same results twice\<close>

subsection \<open>What the loop of \<open>update_entries\<close> computes\<close>

lemma py_index_cases:
  "py_index n idx = Inl IndexError \<or> (\<exists>q < n. py_index n idx = Inr q)"
  by (auto simp: py_index_def)

lemma items_at_Cons:
  "items_at n p ((idx, item) # rs) =
     (if accessed item \<and> py_index n idx = Inr p then item # items_at n p rs
      else items_at n p rs)"
  by (simp add: items_at_def)

lemma update_entries_loop_exact:
  "update_entries_loop lib rs (es, k) =
     (if \<forall>r \<in> set rs. accessed (snd r) \<longrightarrow> (\<exists>q. py_index (length es) (fst r) = Inr q)
      then Inr (map (\<lambda>p. fold (merge_item lib) (items_at (length es) p rs) (es ! p))
                    [0..<length es],
                k + length (filter (\<lambda>r. websites (snd r) \<noteq> []) rs))
      else Inl IndexError)"
proof (induction rs arbitrary: es k)
  case Nil
  then show ?case by (simp add: items_at_def map_nth)
next
  case (Cons r rs)
  obtain idx item where r: "r = (idx, item)" by (cases r)
  show ?case
  proof (cases "accessed item")
    case False
    then have nw: "websites item = []" by (simp add: accessed_def)
    have "update_entries_loop lib (r # rs) (es, k) = update_entries_loop lib rs (es, k)"
      using False r by (simp add: accessed_def)
    then show ?thesis
      unfolding Cons.IH using False r nw by (simp add: items_at_Cons)
  next
    case True
    from py_index_cases [of "length es" idx] show ?thesis
    proof
      assume bad: "py_index (length es) idx = Inl IndexError"
      then show ?thesis
        using True r by (auto simp: accessed_def)
    next
      assume "\<exists>q < length es. py_index (length es) idx = Inr q"
      then obtain q where q: "q < length es" "py_index (length es) idx = Inr q" by blast
      let ?es1 = "es[q := merge_item lib item (es ! q)]"
      let ?k1 = "if websites item \<noteq> [] then k + 1 else k"
      have step: "update_entries_loop lib (r # rs) (es, k) = update_entries_loop lib rs (?es1, ?k1)"
        using True r q by (simp add: accessed_def)
      have m: "map (\<lambda>p. fold (merge_item lib) (items_at (length es) p rs) (?es1 ! p)) [0..<length es]
             = map (\<lambda>p. fold (merge_item lib) (items_at (length es) p (r # rs)) (es ! p)) [0..<length es]"
        by (rule map_cong) (use True r q in \<open>auto simp: items_at_Cons nth_list_update\<close>)
      show ?thesis
        unfolding step Cons.IH using True r q m by auto
    qed
  qed
qed


subsection \<open>Merging a list of items into one entry, twice\<close>

lemma alist_eqI:
  "distinct (map fst a) \<Longrightarrow> map fst a = map fst b \<Longrightarrow> map_of a = map_of b \<Longrightarrow> a = b"
proof (induction a arbitrary: b)
  case Nil
  then show ?case by simp
next
  case (Cons x a)
  then obtain y b' where b: "b = y # b'" by (cases b) auto
  obtain k v where x: "x = (k, v)" by (cases x)
  obtain k' v' where y: "y = (k', v')" by (cases y)
  from Cons.prems(2) b x y have kk: "k' = k" and keys: "map fst a = map fst b'" by simp_all
  have pt: "map_of (x # a) z = map_of b z" for z
    by (rule fun_cong [OF Cons.prems(3)])
  from pt [of k] have vv: "v' = v"
    unfolding b x y kk by simp
  have na: "k \<notin> fst ` set a" using Cons.prems(1) x by simp
  then have nb: "k \<notin> fst ` set b'" using keys by (metis list.set_map)
  have "map_of a = map_of b'"
  proof
    fix z
    show "map_of a z = map_of b' z"
    proof (cases "z = k")
      case True
      have "map_of a k = None" "map_of b' k = None"
        using na nb by (simp_all add: map_of_eq_None_iff)
      then show ?thesis using True by simp
    next
      case False
      with pt [of z] show ?thesis
        unfolding b x y kk by simp
    qed
  qed
  then have "a = b'"
    using Cons.IH [of b'] Cons.prems(1) keys by simp
  then show ?case using b x y kk vv by simp
qed

lemma field_effect_const: "field_effect (\<lambda>x. c)"
  by (auto simp: field_effect_def)

lemma field_effect_keep: "field_effect (\<lambda>x. x)"
  by (simp add: field_effect_def)

lemma field_effect_fill:
  "v \<noteq> [] \<Longrightarrow> field_effect (\<lambda>x. if x = None \<or> x = Some [] then Some v else x)"
  unfolding field_effect_def by blast

lemma field_effect_compose:
  assumes h: "field_effect h" and f: "field_effect f"
  shows "field_effect (\<lambda>x. h (f x))"
proof -
  consider (const) c where "f = (\<lambda>x. c)" | (keep) "f = (\<lambda>x. x)"
    | (fill) v where "v \<noteq> []" "f = (\<lambda>x. if x = None \<or> x = Some [] then Some v else x)"
    using f unfolding field_effect_def by blast
  then show ?thesis
  proof cases
    case const
    then show ?thesis by (simp add: field_effect_const)
  next
    case keep
    then show ?thesis using h by simp
  next
    case fill
    consider (hconst) c where "h = (\<lambda>x. c)" | (hkeep) "h = (\<lambda>x. x)"
      | (hfill) w where "w \<noteq> []" "h = (\<lambda>x. if x = None \<or> x = Some [] then Some w else x)"
      using h unfolding field_effect_def by blast
    then show ?thesis
    proof cases
      case hconst
      then show ?thesis by (simp add: field_effect_const)
    next
      case hkeep
      then show ?thesis using f by simp
    next
      case hfill
      have "(\<lambda>x. h (f x)) = f"
        unfolding hfill(2) fill(2) using fill(1) by (auto simp: fun_eq_iff)
      then show ?thesis using f by simp
    qed
  qed
qed

lemma field_effect_idem: "field_effect h \<Longrightarrow> h (h x) = h x"
  unfolding field_effect_def by (elim disjE exE conjE) simp_all

lemma map_of_merge_item_phone:
  "map_of (merge_item lib item e) ''phone'' =
     (if phone item \<noteq> [] \<and> (map_of e ''phone'' = None \<or> map_of e ''phone'' = Some [])
      then Some (phone item) else map_of e ''phone'')"
  by (simp add: merge_item_def Let_def update_conv' get_str_set_websites_other
      map_of_set_websites_other website_keys_def)
    (auto simp: get_str_def split: option.splits)

lemma map_of_merge_item_address:
  "map_of (merge_item lib item e) ''address'' =
     (if address item \<noteq> [] \<and> (map_of e ''address'' = None \<or> map_of e ''address'' = Some [])
      then Some (address item) else map_of e ''address'')"
  by (simp add: merge_item_def Let_def update_conv' get_str_set_websites_other
      map_of_set_websites_other website_keys_def get_str_update_other)
    (auto simp: get_str_def split: option.splits)

lemma map_of_merge_item_other:
  "k \<noteq> ''phone'' \<Longrightarrow> k \<noteq> ''address'' \<Longrightarrow>
   map_of (merge_item lib item e) k =
     (if websites item \<noteq> [] then map_of (set_websites lib (websites item) e) k
      else map_of e k)"
  by (simp add: merge_item_def Let_def update_conv')

lemma set_websites_effect:
  "(\<exists>c. \<forall>e. map_of (set_websites lib ws e) k = c)
   \<or> (\<forall>e. map_of (set_websites lib ws e) k = map_of e k)"
proof -
  consider (primary) "k = ''website_url_primary''" | (domain) "k = ''website_domain_primary''"
    | (all) "k \<in> {''website_count'', ''website_urls_all'', ''website_domains_all''}"
    | (other) "k \<notin> website_keys"
    by (auto simp: website_keys_def)
  then show ?thesis
  proof cases
    case primary
    have "\<forall>e. map_of (set_websites lib ws e) k = Some (hd ws)"
      by (simp add: primary set_websites_def Let_def update_conv')
    then show ?thesis by blast
  next
    case domain
    have "\<forall>e. map_of (set_websites lib ws e) k = Some (domain_of lib (hd ws))"
      by (simp add: domain set_websites_def Let_def update_conv')
    then show ?thesis by blast
  next
    case all
    show ?thesis
    proof (cases "length ws > 1")
      case True
      have "\<forall>e. map_of (set_websites lib ws e) k =
              (if k = ''website_count'' then Some (str_nat (length ws))
               else if k = ''website_urls_all'' then Some (join ''|'' ws)
               else Some (join ''|'' (map (domain_of lib) ws)))"
        using all True by (auto simp: set_websites_def Let_def update_conv')
      then show ?thesis by blast
    next
      case False
      have "\<forall>e. map_of (set_websites lib ws e) k = map_of e k"
        using all False by (auto simp: set_websites_def Let_def update_conv')
      then show ?thesis by blast
    qed
  next
    case other
    then show ?thesis by (simp add: map_of_set_websites_other)
  qed
qed

lemma merge_item_effect:
  "\<exists>f. field_effect f \<and> (\<forall>e. map_of (merge_item lib item e) k = f (map_of e k))"
proof -
  consider (phone) "k = ''phone''" | (address) "k = ''address''"
    | (other) "k \<noteq> ''phone''" "k \<noteq> ''address''"
    by blast
  then show ?thesis
  proof cases
    case phone
    show ?thesis
    proof (cases "phone item = []")
      case True
      then show ?thesis
        by (intro exI [of _ "\<lambda>x. x"]) (simp add: field_effect_keep phone map_of_merge_item_phone)
    next
      case False
      then show ?thesis
        by (intro exI [of _ "\<lambda>x. if x = None \<or> x = Some [] then Some (phone item) else x"])
          (simp add: field_effect_fill phone map_of_merge_item_phone)
    qed
  next
    case address
    show ?thesis
    proof (cases "address item = []")
      case True
      then show ?thesis
        by (intro exI [of _ "\<lambda>x. x"]) (simp add: field_effect_keep address map_of_merge_item_address)
    next
      case False
      then show ?thesis
        by (intro exI [of _ "\<lambda>x. if x = None \<or> x = Some [] then Some (address item) else x"])
          (simp add: field_effect_fill address map_of_merge_item_address)
    qed
  next
    case other
    show ?thesis
    proof (cases "websites item = []")
      case True
      then show ?thesis
        by (intro exI [of _ "\<lambda>x. x"]) (simp add: field_effect_keep other map_of_merge_item_other)
    next
      case False
      from set_websites_effect [of lib "websites item" k] show ?thesis
      proof
        assume "\<exists>c. \<forall>e. map_of (set_websites lib (websites item) e) k = c"
        then obtain c where "\<forall>e. map_of (set_websites lib (websites item) e) k = c" ..
        then show ?thesis
          using False
          by (intro exI [of _ "\<lambda>x. c"]) (simp add: field_effect_const other map_of_merge_item_other)
      next
        assume "\<forall>e. map_of (set_websites lib (websites item) e) k = map_of e k"
        then show ?thesis
          by (intro exI [of _ "\<lambda>x. x"]) (simp add: field_effect_keep other map_of_merge_item_other)
      qed
    qed
  qed
qed

lemma merge_items_effect:
  "\<exists>h. field_effect h \<and> (\<forall>e. map_of (fold (merge_item lib) items e) k = h (map_of e k))"
proof (induction items)
  case Nil
  show ?case
    by (intro exI [of _ "\<lambda>x. x"]) (simp add: field_effect_keep)
next
  case (Cons item items)
  then obtain h where h: "field_effect h"
    "\<forall>e. map_of (fold (merge_item lib) items e) k = h (map_of e k)" by blast
  obtain f where f: "field_effect f" "\<forall>e. map_of (merge_item lib item e) k = f (map_of e k)"
    using merge_item_effect by blast
  show ?case
    by (intro exI [of _ "\<lambda>x. h (f x)"]) (simp add: h f field_effect_compose)
qed

lemma map_of_merge_items_twice:
  "map_of (fold (merge_item lib) items (fold (merge_item lib) items e))
     = map_of (fold (merge_item lib) items e)"
proof
  fix k
  obtain h where h: "field_effect h"
    "\<forall>e. map_of (fold (merge_item lib) items e) k = h (map_of e k)"
    using merge_items_effect by blast
  show "map_of (fold (merge_item lib) items (fold (merge_item lib) items e)) k
     = map_of (fold (merge_item lib) items e) k"
    by (simp add: h field_effect_idem)
qed

subsection \<open>The keys of an entry under a merge\<close>

lemma merge_item_steps:
  "merge_item lib item e =
     fill_field ''address'' (address item)
       (fill_field ''phone'' (phone item)
          (if websites item \<noteq> [] then set_websites lib (websites item) e else e))"
  by (simp add: merge_item_def fill_field_def Let_def)

lemma keys_update_present:
  "k \<in> fst ` set al \<Longrightarrow> map fst (AList.update k v al) = map fst al"
  by (simp add: update_keys)

lemma get_str_nonempty_key: "get_str e k \<noteq> [] \<Longrightarrow> k \<in> fst ` set e"
proof -
  assume "get_str e k \<noteq> []"
  then obtain v where "map_of e k = Some v"
    by (cases "map_of e k") (simp_all add: get_str_def)
  then have "(k, v) \<in> set e" by (rule map_of_SomeD)
  then show ?thesis by force
qed

lemma fill_field_mono: "fst ` set e \<subseteq> fst ` set (fill_field k v e)"
  by (auto simp: fill_field_def dom_update)

lemma fill_field_touch: "v \<noteq> [] \<Longrightarrow> k \<in> fst ` set (fill_field k v e)"
  using get_str_nonempty_key [of e k] by (auto simp: fill_field_def dom_update)

lemma fill_field_same: "(v \<noteq> [] \<longrightarrow> k \<in> fst ` set e) \<Longrightarrow> map fst (fill_field k v e) = map fst e"
  by (simp add: fill_field_def keys_update_present)

lemma fill_field_distinct: "distinct (map fst e) \<Longrightarrow> distinct (map fst (fill_field k v e))"
  by (simp add: fill_field_def distinct_update)

lemma set_websites_mono: "fst ` set e \<subseteq> fst ` set (set_websites lib ws e)"
  by (auto simp: set_websites_def Let_def dom_update)

lemma set_websites_touch:
  "{''website_url_primary'', ''website_domain_primary''} \<subseteq> fst ` set (set_websites lib ws e)
   \<and> (length ws > 1 \<longrightarrow>
        {''website_count'', ''website_urls_all'', ''website_domains_all''}
          \<subseteq> fst ` set (set_websites lib ws e))"
  by (simp add: set_websites_def Let_def dom_update)

lemma set_websites_same:
  "{''website_url_primary'', ''website_domain_primary''} \<subseteq> fst ` set e \<Longrightarrow>
   (length ws > 1 \<longrightarrow>
      {''website_count'', ''website_urls_all'', ''website_domains_all''} \<subseteq> fst ` set e) \<Longrightarrow>
   map fst (set_websites lib ws e) = map fst e"
  by (simp add: set_websites_def Let_def keys_update_present dom_update)

lemma set_websites_distinct:
  "distinct (map fst e) \<Longrightarrow> distinct (map fst (set_websites lib ws e))"
  by (simp add: set_websites_def Let_def distinct_update)

lemma merge_item_mono: "fst ` set e \<subseteq> fst ` set (merge_item lib item e)"
proof -
  let ?e1 = "if websites item \<noteq> [] then set_websites lib (websites item) e else e"
  have "fst ` set e \<subseteq> fst ` set ?e1"
    by (simp add: set_websites_mono)
  also have "\<dots> \<subseteq> fst ` set (fill_field ''phone'' (phone item) ?e1)"
    by (rule fill_field_mono)
  also have "\<dots> \<subseteq> fst ` set (fill_field ''address'' (address item)
                          (fill_field ''phone'' (phone item) ?e1))"
    by (rule fill_field_mono)
  finally show ?thesis by (simp only: merge_item_steps)
qed

lemma merge_item_touch: "touched item \<subseteq> fst ` set (merge_item lib item e)"
proof -
  define e1 where "e1 = (if websites item \<noteq> [] then set_websites lib (websites item) e else e)"
  define e2 where "e2 = fill_field ''phone'' (phone item) e1"
  define e3 where "e3 = fill_field ''address'' (address item) e2"
  have m12: "fst ` set e1 \<subseteq> fst ` set e2" and m23: "fst ` set e2 \<subseteq> fst ` set e3"
    unfolding e2_def e3_def by (rule fill_field_mono)+
  have w: "{''website_url_primary'', ''website_domain_primary''} \<subseteq> fst ` set e1"
    if "websites item \<noteq> []"
    using set_websites_touch [of lib "websites item" e] that by (simp add: e1_def)
  have w2: "{''website_count'', ''website_urls_all'', ''website_domains_all''} \<subseteq> fst ` set e1"
    if "length (websites item) > 1"
  proof -
    from that have "websites item \<noteq> []" by auto
    then show ?thesis
      using set_websites_touch [of lib "websites item" e] that by (simp add: e1_def)
  qed
  have p: "''phone'' \<in> fst ` set e2" if "phone item \<noteq> []"
    unfolding e2_def using that by (rule fill_field_touch)
  have a: "''address'' \<in> fst ` set e3" if "address item \<noteq> []"
    unfolding e3_def using that by (rule fill_field_touch)
  have e3: "merge_item lib item e = e3"
    by (simp only: merge_item_steps e1_def e2_def e3_def)
  have A: "(if websites item \<noteq> [] then {''website_url_primary'', ''website_domain_primary''}
            else {}) \<subseteq> fst ` set e3"
    using w m12 m23 by (cases "websites item = []") auto
  have B: "(if length (websites item) > 1
            then {''website_count'', ''website_urls_all'', ''website_domains_all''} else {})
           \<subseteq> fst ` set e3"
    using w2 m12 m23 by (cases "length (websites item) > 1") auto
  have C: "(if phone item \<noteq> [] then {''phone''} else {}) \<subseteq> fst ` set e3"
    using p m23 by (cases "phone item = []") auto
  have D: "(if address item \<noteq> [] then {''address''} else {}) \<subseteq> fst ` set e3"
    using a by (cases "address item = []") auto
  show ?thesis
    unfolding e3 touched_def using A B C D by (intro Un_least)
qed

lemma merge_item_same:
  assumes "touched item \<subseteq> fst ` set e"
  shows "map fst (merge_item lib item e) = map fst e"
proof -
  define e1 where "e1 = (if websites item \<noteq> [] then set_websites lib (websites item) e else e)"
  define e2 where "e2 = fill_field ''phone'' (phone item) e1"
  define e3 where "e3 = fill_field ''address'' (address item) e2"
  have e3: "merge_item lib item e = e3"
    by (simp only: merge_item_steps e1_def e2_def e3_def)
  have A: "websites item \<noteq> [] \<Longrightarrow>
             {''website_url_primary'', ''website_domain_primary''} \<subseteq> fst ` set e"
    and B: "length (websites item) > 1 \<Longrightarrow>
             {''website_count'', ''website_urls_all'', ''website_domains_all''} \<subseteq> fst ` set e"
    and C: "phone item \<noteq> [] \<Longrightarrow> ''phone'' \<in> fst ` set e"
    and D: "address item \<noteq> [] \<Longrightarrow> ''address'' \<in> fst ` set e"
    using assms unfolding touched_def by simp_all
  have k1: "map fst e1 = map fst e"
  proof (cases "websites item = []")
    case True
    then show ?thesis by (simp add: e1_def)
  next
    case False
    have "map fst (set_websites lib (websites item) e) = map fst e"
      by (rule set_websites_same) (use A B False in blast)+
    then show ?thesis using False by (simp add: e1_def)
  qed
  from arg_cong [OF k1, of set] have s1: "fst ` set e1 = fst ` set e"
    by simp
  have k2: "map fst e2 = map fst e1"
    unfolding e2_def by (rule fill_field_same) (use C s1 in simp)
  from arg_cong [OF k2, of set] have s2: "fst ` set e2 = fst ` set e1"
    by simp
  have k3: "map fst e3 = map fst e2"
    unfolding e3_def by (rule fill_field_same) (use D s1 s2 in simp)
  show ?thesis
    unfolding e3 using k1 k2 k3 by simp
qed

lemma merge_item_distinct:
  "distinct (map fst e) \<Longrightarrow> distinct (map fst (merge_item lib item e))"
  unfolding merge_item_steps
  by (simp add: fill_field_distinct set_websites_distinct)

lemma merge_items_mono: "fst ` set e \<subseteq> fst ` set (fold (merge_item lib) items e)"
proof (induction items arbitrary: e)
  case Nil
  then show ?case by simp
next
  case (Cons item items)
  have "fst ` set e \<subseteq> fst ` set (merge_item lib item e)" by (rule merge_item_mono)
  also have "\<dots> \<subseteq> fst ` set (fold (merge_item lib) items (merge_item lib item e))"
    by (rule Cons.IH)
  finally show ?case by simp
qed

lemma merge_items_touch:
  "item \<in> set items \<Longrightarrow> touched item \<subseteq> fst ` set (fold (merge_item lib) items e)"
proof (induction items arbitrary: e)
  case Nil
  then show ?case by simp
next
  case (Cons x items)
  show ?case
  proof (cases "item = x")
    case True
    have "touched item \<subseteq> fst ` set (merge_item lib x e)"
      unfolding True by (rule merge_item_touch)
    also have "\<dots> \<subseteq> fst ` set (fold (merge_item lib) items (merge_item lib x e))"
      by (rule merge_items_mono)
    finally show ?thesis by simp
  next
    case False
    then have "item \<in> set items" using Cons.prems by simp
    then show ?thesis using Cons.IH by simp
  qed
qed

lemma merge_items_same:
  "\<forall>item \<in> set items. touched item \<subseteq> fst ` set e \<Longrightarrow>
   map fst (fold (merge_item lib) items e) = map fst e"
proof (induction items arbitrary: e)
  case Nil
  then show ?case by simp
next
  case (Cons x items)
  have k: "map fst (merge_item lib x e) = map fst e"
    by (rule merge_item_same) (use Cons.prems in simp)
  from arg_cong [OF k, of set] have s: "fst ` set (merge_item lib x e) = fst ` set e"
    by simp
  have "map fst (fold (merge_item lib) items (merge_item lib x e)) = map fst (merge_item lib x e)"
    by (rule Cons.IH) (use Cons.prems s in simp)
  then show ?case using k by simp
qed

lemma merge_items_distinct:
  "distinct (map fst e) \<Longrightarrow> distinct (map fst (fold (merge_item lib) items e))"
  by (induction items arbitrary: e) (simp_all add: merge_item_distinct)

lemma merge_items_twice:
  assumes "distinct (map fst e)"
  shows "fold (merge_item lib) items (fold (merge_item lib) items e)
           = fold (merge_item lib) items e"
proof (rule alist_eqI)
  let ?e' = "fold (merge_item lib) items e"
  show "map fst (fold (merge_item lib) items ?e') = map fst ?e'"
    by (rule merge_items_same) (simp add: merge_items_touch)
  then show "distinct (map fst (fold (merge_item lib) items ?e'))"
    using merge_items_distinct [OF assms] by simp
  show "map_of (fold (merge_item lib) items ?e') = map_of ?e'"
    by (rule map_of_merge_items_twice)
qed

subsection \<open>\<open>update_entries_with_results\<close>, twice\<close>

lemma fold_update_entries_with_results_body_snd:
  "b \<le> length es \<Longrightarrow>
   snd (fold (update_entries_with_results_body lib rs) [a..<b] (es, k)) =
     k + length (filter (\<lambda>i. websites (result_for rs (es ! i)) \<noteq> []) [a..<b])"
proof (induction b)
  case 0
  then show ?case by simp
next
  case (Suc b)
  show ?case
  proof (cases "a \<le> b")
    case False
    then show ?thesis by simp
  next
    case True
    obtain es1 k1 where st: "fold (update_entries_with_results_body lib rs) [a..<b] (es, k) = (es1, k1)"
      by (cases "fold (update_entries_with_results_body lib rs) [a..<b] (es, k)")
    have b: "b < length es" using Suc.prems by simp
    have "es1 = fst (fold (update_entries_with_results_body lib rs) [a..<b] (es, k))"
      using st by simp
    then have "es1 ! b = es ! b"
      using b by (simp add: fold_update_entries_with_results_body)
    moreover have "k1 = k + length (filter (\<lambda>i. websites (result_for rs (es ! i)) \<noteq> []) [a..<b])"
      using Suc st by simp
    moreover have "fold (update_entries_with_results_body lib rs) [a..<Suc b] (es, k)
            = update_entries_with_results_body lib rs b (es1, k1)"
      using True st by simp
    ultimately show ?thesis
      using True by (simp add: update_entries_with_results_body_pair)
  qed
qed

lemma update_entries_with_results_exact:
  "update_entries_with_results lib es rs s e =
     (map (\<lambda>p. if s \<le> p \<and> p < min e (length es) then update_entry lib rs (es ! p) else es ! p)
          [0..<length es],
      length (filter (\<lambda>i. websites (result_for rs (es ! i)) \<noteq> []) [s..<min e (length es)]))"
  by (rule prod_eqI)
    (simp_all add: update_entries_with_results_def fold_update_entries_with_results_body
      fold_update_entries_with_results_body_snd)

lemma result_for_update_entry: "result_for rs (update_entry lib rs x) = result_for rs x"
proof -
  have "get_str (update_entry lib rs x) ''detail_url'' = get_str x ''detail_url''"
    by (simp add: update_entry_def Let_def get_str_update_other get_str_set_websites_other
        website_keys_def)
  then show ?thesis by (simp add: result_for_def)
qed

lemma set_websites_fix:
  "map_of e ''website_url_primary'' = Some (hd ws) \<Longrightarrow>
   map_of e ''website_domain_primary'' = Some (domain_of lib (hd ws)) \<Longrightarrow>
   (length ws > 1 \<longrightarrow> map_of e ''website_count'' = Some (str_nat (length ws))
      \<and> map_of e ''website_urls_all'' = Some (join ''|'' ws)
      \<and> map_of e ''website_domains_all'' = Some (join ''|'' (map (domain_of lib) ws))) \<Longrightarrow>
   set_websites lib ws e = e"
  by (simp add: set_websites_def Let_def update_triv)

lemma update_entry_twice: "update_entry lib rs (update_entry lib rs x) = update_entry lib rs x"
proof -
  define r where "r = result_for rs x"
  define y where "y = update_entry lib rs x"
  have r': "result_for rs y = r"
    by (simp add: y_def r_def result_for_update_entry)
  have p: "map_of y ''phone'' = Some (phone r)" and a: "map_of y ''address'' = Some (address r)"
    by (simp_all add: y_def r_def update_entry_def Let_def update_conv')
  have w: "(if websites r \<noteq> [] then set_websites lib (websites r) y
            else AList.update ''website_domain_primary'' []
                   (AList.update ''website_url_primary'' [] y)) = y"
  proof (cases "websites r = []")
    case True
    have "map_of y ''website_url_primary'' = Some []" "map_of y ''website_domain_primary'' = Some []"
      using True by (simp_all add: y_def r_def [symmetric] update_entry_def Let_def update_conv')
    then show ?thesis using True by (simp add: update_triv)
  next
    case False
    have "set_websites lib (websites r) y = y"
    proof (rule set_websites_fix)
      show "map_of y ''website_url_primary'' = Some (hd (websites r))"
        using False
        by (simp add: y_def r_def [symmetric] update_entry_def Let_def update_conv'
            set_websites_def)
      show "map_of y ''website_domain_primary'' = Some (domain_of lib (hd (websites r)))"
        using False
        by (simp add: y_def r_def [symmetric] update_entry_def Let_def update_conv'
            set_websites_def)
      show "length (websites r) > 1 \<longrightarrow>
              map_of y ''website_count'' = Some (str_nat (length (websites r)))
              \<and> map_of y ''website_urls_all'' = Some (join ''|'' (websites r))
              \<and> map_of y ''website_domains_all''
                  = Some (join ''|'' (map (domain_of lib) (websites r)))"
        using False
        by (simp add: y_def r_def [symmetric] update_entry_def Let_def update_conv'
            set_websites_def)
    qed
    then show ?thesis using False by simp
  qed
  have "update_entry lib rs y = y"
    unfolding update_entry_def [of lib rs y] Let_def r' w
    using p a by (simp add: update_triv)
  then show ?thesis by (simp add: y_def)
qed

text \<open>
  C6. Merging the same results twice gives what merging them once gives, the entries and
  the count returned: in \<open>update_entries\<close> for entries that are dictionaries (no key
  twice) whenever the first merge returns, and in \<open>update_entries_with_results\<close> for the
  same batch range. The fields \<^verbatim>\<open>website_urls_all\<close> and \<^verbatim>\<open>website_domains_all\<close>
  are assigned, never appended to, so they hold the same text after the second merge.
\<close>

theorem merge_twice_is_merge_once:
  "((\<forall>entry \<in> set entries. distinct (map fst entry))
      \<and> update_entries lib entries results = Inr (entries', n)
    \<longrightarrow> update_entries lib entries' results = Inr (entries', n))
   \<and> update_entries_with_results lib (fst (update_entries_with_results lib ents res s e)) res s e
       = update_entries_with_results lib ents res s e"
proof (intro conjI impI)
  assume a: "(\<forall>entry \<in> set entries. distinct (map fst entry))
      \<and> update_entries lib entries results = Inr (entries', n)"
  let ?N = "length entries"
  let ?ok = "\<forall>r \<in> set results. accessed (snd r) \<longrightarrow> (\<exists>q. py_index ?N (fst r) = Inr q)"
  from a have run: "update_entries_loop lib results (entries, 0) = Inr (entries', n)"
    by (simp add: update_entries_def)
  have ok: ?ok
    using run unfolding update_entries_loop_exact by (simp split: if_splits)
  have es': "entries' = map (\<lambda>p. fold (merge_item lib) (items_at ?N p results) (entries ! p))
                           [0..<?N]"
    and n: "n = length (filter (\<lambda>r. websites (snd r) \<noteq> []) results)"
    using run ok unfolding update_entries_loop_exact by simp_all
  have len: "length entries' = ?N" by (simp add: es')
  have "map (\<lambda>p. fold (merge_item lib) (items_at ?N p results) (entries' ! p)) [0..<?N] = entries'"
  proof (rule nth_equalityI)
    show "length (map (\<lambda>p. fold (merge_item lib) (items_at ?N p results) (entries' ! p)) [0..<?N])
            = length entries'"
      by (simp add: len)
    fix i
    assume "i < length (map (\<lambda>p. fold (merge_item lib) (items_at ?N p results) (entries' ! p))
                          [0..<?N])"
    then have i: "i < ?N" by simp
    then have d: "distinct (map fst (entries ! i))" using a by simp
    have e: "entries' ! i = fold (merge_item lib) (items_at ?N i results) (entries ! i)"
      using i by (simp add: es')
    show "map (\<lambda>p. fold (merge_item lib) (items_at ?N p results) (entries' ! p)) [0..<?N] ! i
            = entries' ! i"
      using i by (simp add: e merge_items_twice [OF d])
  qed
  then show "update_entries lib entries' results = Inr (entries', n)"
    unfolding update_entries_def update_entries_loop_exact len using ok n by simp
next
  define es' where "es' = fst (update_entries_with_results lib ents res s e)"
  have len: "length es' = length ents"
    unfolding es'_def by (rule length_update_entries_with_results)
  have nth: "es' ! p = (if s \<le> p \<and> p < min e (length ents) then update_entry lib res (ents ! p)
                         else ents ! p)" if "p < length ents" for p
    using that by (simp add: es'_def update_entries_with_results_exact)
  have f: "fst (update_entries_with_results lib es' res s e) = es'"
  proof (rule nth_equalityI)
    show "length (fst (update_entries_with_results lib es' res s e)) = length es'"
      by (rule length_update_entries_with_results)
    fix i
    assume "i < length (fst (update_entries_with_results lib es' res s e))"
    then have i: "i < length ents"
      by (simp add: length_update_entries_with_results len)
    show "fst (update_entries_with_results lib es' res s e) ! i = es' ! i"
      using i len nth [OF i]
      by (simp add: update_entries_with_results_nth update_entry_twice)
  qed
  have fe: "filter (\<lambda>i. websites (result_for res (es' ! i)) \<noteq> []) [s..<min e (length ents)]
          = filter (\<lambda>i. websites (result_for res (ents ! i)) \<noteq> []) [s..<min e (length ents)]"
    by (rule filter_cong) (simp_all add: nth result_for_update_entry)
  have snd1: "snd (update_entries_with_results lib es' res s e)
          = length (filter (\<lambda>i. websites (result_for res (es' ! i)) \<noteq> [])
                           [s..<min e (length ents)])"
    by (simp add: update_entries_with_results_exact len)
  have snd0: "snd (update_entries_with_results lib ents res s e)
          = length (filter (\<lambda>i. websites (result_for res (ents ! i)) \<noteq> [])
                           [s..<min e (length ents)])"
    by (simp add: update_entries_with_results_exact)
  have g: "snd (update_entries_with_results lib es' res s e)
          = snd (update_entries_with_results lib ents res s e)"
    unfolding snd1 snd0 fe ..
  have "update_entries_with_results lib es' res s e = (es', snd (update_entries_with_results lib ents res s e))"
    by (rule prod_eqI) (use f g in simp_all)
  then show "update_entries_with_results lib (fst (update_entries_with_results lib ents res s e)) res s e
       = update_entries_with_results lib ents res s e"
    unfolding es'_def by simp
qed

theorem merge_twice_is_merge_once_witness:
  "distinct (map fst [(''detail_url'', ''u''), (''phone'', '''')])
   \<and> update_entries permissive_urllib [[(''detail_url'', ''u''), (''phone'', '''')]]
        [(0, \<lparr>detail_url = ''u'', entryIndex = Some 0,
              websites = [''http://a.com'', ''http://b.com''], phone = ''555-1234'',
              address = []\<rparr>)]
      = Inr ([[(''detail_url'', ''u''), (''phone'', ''555-1234''),
               (''website_url_primary'', ''http://a.com''),
               (''website_domain_primary'', domain_of permissive_urllib ''http://a.com''),
               (''website_count'', str_nat 2),
               (''website_urls_all'', ''http://a.com|http://b.com''),
               (''website_domains_all'',
                domain_of permissive_urllib ''http://a.com'' @ ''|''
                  @ domain_of permissive_urllib ''http://b.com'')]], 1)
   \<and> update_entries permissive_urllib
        [[(''detail_url'', ''u''), (''phone'', ''555-1234''),
          (''website_url_primary'', ''http://a.com''),
          (''website_domain_primary'', domain_of permissive_urllib ''http://a.com''),
          (''website_count'', str_nat 2),
          (''website_urls_all'', ''http://a.com|http://b.com''),
          (''website_domains_all'',
           domain_of permissive_urllib ''http://a.com'' @ ''|''
             @ domain_of permissive_urllib ''http://b.com'')]]
        [(0, \<lparr>detail_url = ''u'', entryIndex = Some 0,
              websites = [''http://a.com'', ''http://b.com''], phone = ''555-1234'',
              address = []\<rparr>)]
      = Inr ([[(''detail_url'', ''u''), (''phone'', ''555-1234''),
               (''website_url_primary'', ''http://a.com''),
               (''website_domain_primary'', domain_of permissive_urllib ''http://a.com''),
               (''website_count'', str_nat 2),
               (''website_urls_all'', ''http://a.com|http://b.com''),
               (''website_domains_all'',
                domain_of permissive_urllib ''http://a.com'' @ ''|''
                  @ domain_of permissive_urllib ''http://b.com'')]], 1)"
proof -
  have first: "update_entries permissive_urllib [[(''detail_url'', ''u''), (''phone'', '''')]]
        [(0, \<lparr>detail_url = ''u'', entryIndex = Some 0,
              websites = [''http://a.com'', ''http://b.com''], phone = ''555-1234'',
              address = []\<rparr>)]
      = Inr ([[(''detail_url'', ''u''), (''phone'', ''555-1234''),
               (''website_url_primary'', ''http://a.com''),
               (''website_domain_primary'', domain_of permissive_urllib ''http://a.com''),
               (''website_count'', str_nat 2),
               (''website_urls_all'', ''http://a.com|http://b.com''),
               (''website_domains_all'',
                domain_of permissive_urllib ''http://a.com'' @ ''|''
                  @ domain_of permissive_urllib ''http://b.com'')]], 1)"
    by (simp add: update_entries_def py_index_def merge_item_def set_websites_def get_str_def
        Let_def numeral_2_eq_2)
  have dist: "\<forall>entry \<in> set [[(''detail_url'', ''u''), (''phone'', '''')]]. distinct (map fst entry)"
    by simp
  from merge_twice_is_merge_once [of "[[(''detail_url'', ''u''), (''phone'', '''')]]"
      permissive_urllib
      "[(0, \<lparr>detail_url = ''u'', entryIndex = Some 0,
              websites = [''http://a.com'', ''http://b.com''], phone = ''555-1234'',
              address = []\<rparr>)]"] dist first
  show ?thesis by simp
qed


section \<open>Properties of the Remote Extraction Client\<close>

subsection \<open>The polling loop\<close>

lemma poll_loop_retry: "polls k = PollError \<Longrightarrow> poll_loop polls k = poll_loop polls (Suc k)"
  by (subst poll_loop.simps) simp

lemma poll_loop_null_message:
  "polls k = PollInfo s None \<Longrightarrow> poll_loop polls k = poll_loop polls (Suc k)"
  by (subst poll_loop.simps) simp

lemma poll_loop_running:
  "polls k = PollInfo s m \<Longrightarrow> \<not> terminal s \<Longrightarrow> poll_loop polls k = poll_loop polls (Suc k)"
  by (subst poll_loop.simps) (simp split: option.splits)

lemma poll_loop_break:
  "polls k = PollInfo s (Some msg) \<Longrightarrow> terminal s \<Longrightarrow> poll_loop polls k = Some s"
  by (subst poll_loop.simps) simp

lemma poll_loop_not_terminal_pass:
  assumes "not_terminal_pass (polls k)"
  shows "poll_loop polls k = poll_loop polls (Suc k)"
proof (cases "polls k")
  case PollError
  then show ?thesis by (rule poll_loop_retry)
next
  case (PollInfo s m)
  with assms have "\<not> terminal s" by (simp add: not_terminal_pass_def)
  with PollInfo show ?thesis by (rule poll_loop_running)
qed

text \<open>When the loop breaks, some pass has read the status it breaks with, a terminal
  one, together with a message that is a text.\<close>

lemma poll_loop_Some_terminal:
  assumes "poll_loop polls k = Some s"
  shows "\<exists>j \<ge> k. reads_status (polls j) s \<and> terminal s"
proof (rule poll_loop.raw_induct
    [where P = "\<lambda>polls k s. \<exists>j \<ge> k. reads_status (polls j) s \<and> terminal s", OF _ assms])
  fix f :: "(nat \<Rightarrow> poll) \<Rightarrow> nat \<Rightarrow> string option" and polls k s
  assume IH: "\<And>polls k s. f polls k = Some s
                \<Longrightarrow> \<exists>j \<ge> k. reads_status (polls j) s \<and> terminal s"
    and eq: "(case polls k of
                PollError \<Rightarrow> f polls (Suc k)
              | PollInfo status message \<Rightarrow>
                  (case message of
                     None \<Rightarrow> f polls (Suc k)
                   | Some msg \<Rightarrow> if terminal status then Some status else f polls (Suc k)))
             = Some s"
  have later: "\<exists>j \<ge> k. reads_status (polls j) s \<and> terminal s" if "f polls (Suc k) = Some s"
  proof -
    from IH [OF that] obtain j where j: "Suc k \<le> j" "reads_status (polls j) s \<and> terminal s"
      by blast
    then have "k \<le> j" by simp
    with j(2) show ?thesis by blast
  qed
  show "\<exists>j \<ge> k. reads_status (polls j) s \<and> terminal s"
  proof (cases "polls k")
    case PollError
    with eq have "f polls (Suc k) = Some s" by simp
    then show ?thesis by (rule later)
  next
    case (PollInfo st m)
    show ?thesis
    proof (cases m)
      case None
      with eq PollInfo have "f polls (Suc k) = Some s" by simp
      then show ?thesis by (rule later)
    next
      case (Some msg)
      show ?thesis
      proof (cases "terminal st")
        case True
        with eq PollInfo Some have "st = s" by simp
        with PollInfo Some True have "k \<le> k \<and> reads_status (polls k) s \<and> terminal s"
          by (simp add: reads_status_def)
        then show ?thesis by blast
      next
        case False
        with eq PollInfo Some have "f polls (Suc k) = Some s" by simp
        then show ?thesis by (rule later)
      qed
    qed
  qed
qed

lemma poll_loop_first_terminal:
  assumes "reads_status (polls j) status" "terminal status"
    and "\<forall>i < j. k \<le> i \<longrightarrow> not_terminal_pass (polls i)"
    and "k \<le> j"
  shows "poll_loop polls k = Some status"
  using assms(3,4)
proof (induction "j - k" arbitrary: k)
  case 0
  then have "k = j" by simp
  moreover from assms(1) obtain msg where "polls j = PollInfo status (Some msg)"
    by (cases "polls j") (auto simp: reads_status_def)
  ultimately show ?case using assms(2) poll_loop_break [of polls j status msg] by simp
next
  case (Suc n)
  then have kj: "k < j" by simp
  with Suc.prems have nt: "not_terminal_pass (polls k)"
    by simp
  have "poll_loop polls (Suc k) = Some status"
    by (rule Suc.hyps(1)) (use Suc.hyps(2) Suc.prems kj in auto)
  moreover have "poll_loop polls k = poll_loop polls (Suc k)"
    using nt by (rule poll_loop_not_terminal_pass)
  ultimately show ?case by simp
qed

lemma poll_loop_of_first_terminal:
  "first_terminal polls j status \<Longrightarrow> poll_loop polls 0 = Some status"
  by (rule poll_loop_first_terminal [of polls j])
    (auto simp: first_terminal_def list_all_iff)

lemma poll_loop_never:
  assumes "\<forall>k. not_terminal_pass (polls k)"
  shows "poll_loop polls k = None"
proof (cases "poll_loop polls k")
  case None
  then show ?thesis .
next
  case (Some s)
  from poll_loop_Some_terminal [OF this]
  obtain j where j: "reads_status (polls j) s" "terminal s" by blast
  from assms have "not_terminal_pass (polls j)" by simp
  with j show ?thesis
    by (cases "polls j") (simp_all add: reads_status_def not_terminal_pass_def)
qed

subsection \<open>Two paths on which a failed job does not give the empty mapping\<close>

text \<open>
  A run that has ended as \<^verbatim>\<open>FAILED\<close>, \<^verbatim>\<open>ABORTED\<close> or \<^verbatim>\<open>TIMED-OUT\<close> and whose
  \<^verbatim>\<open>statusMessage\<close> is \<^verbatim>\<open>null\<close> never reaches the terminal test: the slice raises in
  every pass and the function does not return. A call that returns \<^verbatim>\<open>None\<close> makes
  \<^verbatim>\<open>actor_run.get("id")\<close> raise out of the function, and out of the batch loop.
\<close>

lemma run_apify_batch_null_message:
  assumes "call_result r = Inr (Some run)" "\<forall>k. \<exists>s. poll_result r k = PollInfo s None"
  shows "run_apify_batch r = None \<and> run_apify_batch_by_url r = None"
proof -
  have "poll_loop (poll_result r) 0 = None"
  proof (cases "poll_loop (poll_result r) 0")
    case None
    then show ?thesis .
  next
    case (Some s)
    from poll_loop_Some_terminal [OF this]
    obtain j where j: "reads_status (poll_result r j) s" by blast
    from assms(2) obtain s' where "poll_result r j = PollInfo s' None" by blast
    with j show ?thesis by (simp add: reads_status_def)
  qed
  then show ?thesis
    using assms(1) by (simp add: run_apify_batch_def run_apify_batch_by_url_def)
qed

lemma run_apify_batch_call_returns_None:
  "call_result r = Inr None \<Longrightarrow>
   run_apify_batch r = Some (Inl AttributeError)
   \<and> run_apify_batch_by_url r = Some (Inl AttributeError)"
  by (simp add: run_apify_batch_def run_apify_batch_by_url_def)

subsection \<open>What a failed chunk does to the run\<close>

lemma run_apify_batch_call_raises:
  "call_result r = Inl err \<Longrightarrow>
   run_apify_batch r = Some (Inr []) \<and> run_apify_batch_by_url r = Some (Inr [])"
  by (simp add: run_apify_batch_def run_apify_batch_by_url_def)

lemma run_apify_batch_not_succeeded:
  assumes "call_result r = Inr (Some run)" "first_terminal (poll_result r) j status"
    "status \<noteq> ''SUCCEEDED''"
  shows "run_apify_batch r = Some (Inr []) \<and> run_apify_batch_by_url r = Some (Inr [])"
  using assms poll_loop_of_first_terminal [OF assms(2)]
  by (simp add: run_apify_batch_def run_apify_batch_by_url_def)

lemma run_apify_batch_never_terminal:
  assumes "call_result r = Inr (Some run)" "\<forall>k. not_terminal_pass (poll_result r k)"
  shows "run_apify_batch r = None \<and> run_apify_batch_by_url r = None"
  using assms(1) poll_loop_never [OF assms(2), of 0]
  by (simp add: run_apify_batch_def run_apify_batch_by_url_def)

lemma update_entries_no_results: "update_entries lib es [] = Inr (es, 0)"
  by (simp add: update_entries_def)

lemma rescrape_batches_empty_results:
  assumes "prepare_urls (st_entries st) batch_indices = Inr urls" "urls \<noteq> []"
    "run_apify_batch (remotes batch_num) = Some (Inr [])"
    "save_csv_rescrape fieldnames (st_entries st) = Inr file"
  shows "rescrape_batches lib fieldnames remotes ((batch_num, batch_indices) # rest) st
           = rescrape_batches lib fieldnames remotes rest (st\<lparr>st_saved := st_saved st @ [file]\<rparr>)"
proof -
  have eq: "\<lparr>st_entries = st_entries st, st_total_found = st_total_found st,
         st_saved = st_saved st @ [file]\<rparr> = st\<lparr>st_saved := st_saved st @ [file]\<rparr>"
    by simp
  have "rescrape_batches lib fieldnames remotes ((batch_num, batch_indices) # rest) st
           = rescrape_batches lib fieldnames remotes rest
               \<lparr>st_entries = st_entries st, st_total_found = st_total_found st,
                st_saved = st_saved st @ [file]\<rparr>"
    using assms by (simp add: update_entries_no_results)
  then show ?thesis by (simp only: eq)
qed

lemma update_entries_with_results_no_results_count:
  "snd (update_entries_with_results lib es [] s e) = 0"
  by (simp add: update_entries_with_results_exact result_for_def no_result_def)

lemma detail_batches_empty_results:
  assumes "prepare_urls_for_batch (st_entries st) start_idx end_idx \<noteq> []"
    "run_apify_batch_by_url (remotes batch_num) = Some (Inr [])"
  shows "detail_batches lib set_iter remotes ((batch_num, start_idx, end_idx) # rest) st
           = detail_batches lib set_iter remotes rest
               \<lparr>st_entries = fst (update_entries_with_results lib (st_entries st) [] start_idx end_idx),
                st_total_found = st_total_found st,
                st_saved = st_saved st @
                  (case save_csv set_iter
                          (fst (update_entries_with_results lib (st_entries st) [] start_idx end_idx)) of
                     None \<Rightarrow> [] | Some file \<Rightarrow> [file])\<rparr>"
proof -
  obtain es' n where u: "update_entries_with_results lib (st_entries st) [] start_idx end_idx = (es', n)"
    by (cases "update_entries_with_results lib (st_entries st) [] start_idx end_idx")
  have "n = 0"
    using update_entries_with_results_no_results_count [of lib "st_entries st" start_idx end_idx] u
    by simp
  then show ?thesis
    using assms u by (simp add: Let_def)
qed

lemma wecp_batch_raises:
  "wecp_call w = Inl err \<or> wecp_items w = Inl err \<Longrightarrow> wecp_batch lib fieldnames w batch st = st"
  by (auto simp: wecp_batch_def split: sum.splits)

text \<open>
  C5, as amended. \<open>run_apify_batch\<close> returns the empty mapping when the call that starts
  the actor raises; and, when that call has returned a run, when the first pass of the
  polling loop that reads a terminal status reads \<^verbatim>\<open>FAILED\<close>, \<^verbatim>\<open>ABORTED\<close> or
  \<^verbatim>\<open>TIMED-OUT\<close> with a status message that is a text, every pass before it having
  raised in the poll or read a status that is not terminal. An exception of a polling
  call does not end the chunk: the loop catches it and polls again, and as long as
  every pass raises in the poll or reads a status that is not terminal the function
  does not return. After an empty mapping the loop of \<^verbatim>\<open>enf_rescrape_missing.py\<close>
  writes its checkpoint with the entries unchanged and goes on with the next chunk; the
  loop of \<^verbatim>\<open>enf_detail_scraper.py\<close> merges the empty mapping into the entries of the
  chunk, writes its checkpoint and goes on. In \<^verbatim>\<open>enf_rescrape_wecp.py\<close> an exception
  of the call or of reading the dataset leaves the state as it is and the loop goes on
  with the next chunk.
\<close>

theorem remote_failure_is_not_fatal:
  "(call_result r = Inl err
      \<longrightarrow> run_apify_batch r = Some (Inr []) \<and> run_apify_batch_by_url r = Some (Inr []))
   \<and> (call_result r = Inr (Some run) \<and> first_terminal (poll_result r) j status
        \<and> status \<noteq> ''SUCCEEDED''
      \<longrightarrow> run_apify_batch r = Some (Inr []) \<and> run_apify_batch_by_url r = Some (Inr []))
   \<and> (poll_result r k = PollError
      \<longrightarrow> poll_loop (poll_result r) k = poll_loop (poll_result r) (Suc k))
   \<and> (call_result r = Inr (Some run) \<and> (\<forall>k. not_terminal_pass (poll_result r k))
      \<longrightarrow> run_apify_batch r = None \<and> run_apify_batch_by_url r = None)
   \<and> (prepare_urls (st_entries st) batch_indices = Inr urls \<and> urls \<noteq> []
        \<and> run_apify_batch (remotes batch_num) = Some (Inr [])
        \<and> save_csv_rescrape fieldnames (st_entries st) = Inr file
      \<longrightarrow> rescrape_batches lib fieldnames remotes ((batch_num, batch_indices) # rest) st
            = rescrape_batches lib fieldnames remotes rest
                (st\<lparr>st_saved := st_saved st @ [file]\<rparr>))
   \<and> (prepare_urls_for_batch (st_entries st) start_idx end_idx \<noteq> []
        \<and> run_apify_batch_by_url (remotes batch_num) = Some (Inr [])
      \<longrightarrow> detail_batches lib set_iter remotes ((batch_num, start_idx, end_idx) # ranges) st
            = detail_batches lib set_iter remotes ranges
               \<lparr>st_entries = fst (update_entries_with_results lib (st_entries st) [] start_idx end_idx),
                st_total_found = st_total_found st,
                st_saved = st_saved st @
                  (case save_csv set_iter
                          (fst (update_entries_with_results lib (st_entries st) [] start_idx end_idx)) of
                     None \<Rightarrow> [] | Some file \<Rightarrow> [file])\<rparr>)
   \<and> (wecp_call w = Inl err \<or> wecp_items w = Inl err
      \<longrightarrow> wecp_batch lib fieldnames w batch st = st)
   \<and> wecp_batches lib fieldnames wremotes ((batch_num, batch) # batches) st
       = wecp_batches lib fieldnames wremotes batches
           (wecp_batch lib fieldnames (wremotes batch_num) batch st)"
proof (intro conjI impI)
  show "run_apify_batch r = Some (Inr [])" "run_apify_batch_by_url r = Some (Inr [])"
    if "call_result r = Inl err"
    using run_apify_batch_call_raises [OF that] by simp_all
  show "run_apify_batch r = Some (Inr [])" "run_apify_batch_by_url r = Some (Inr [])"
    if "call_result r = Inr (Some run) \<and> first_terminal (poll_result r) j status
        \<and> status \<noteq> ''SUCCEEDED''"
    using run_apify_batch_not_succeeded [of r run j status] that by simp_all
  show "poll_loop (poll_result r) k = poll_loop (poll_result r) (Suc k)"
    if "poll_result r k = PollError"
    using that by (rule poll_loop_retry)
  show "run_apify_batch r = None" "run_apify_batch_by_url r = None"
    if "call_result r = Inr (Some run) \<and> (\<forall>k. not_terminal_pass (poll_result r k))"
    using run_apify_batch_never_terminal [of r run] that by simp_all
  show "rescrape_batches lib fieldnames remotes ((batch_num, batch_indices) # rest) st
            = rescrape_batches lib fieldnames remotes rest
                (st\<lparr>st_saved := st_saved st @ [file]\<rparr>)"
    if "prepare_urls (st_entries st) batch_indices = Inr urls \<and> urls \<noteq> []
        \<and> run_apify_batch (remotes batch_num) = Some (Inr [])
        \<and> save_csv_rescrape fieldnames (st_entries st) = Inr file"
    using rescrape_batches_empty_results [of st batch_indices urls remotes batch_num fieldnames "file"]
      that by simp
  show "detail_batches lib set_iter remotes ((batch_num, start_idx, end_idx) # ranges) st
            = detail_batches lib set_iter remotes ranges
               \<lparr>st_entries = fst (update_entries_with_results lib (st_entries st) [] start_idx end_idx),
                st_total_found = st_total_found st,
                st_saved = st_saved st @
                  (case save_csv set_iter
                          (fst (update_entries_with_results lib (st_entries st) [] start_idx end_idx)) of
                     None \<Rightarrow> [] | Some file \<Rightarrow> [file])\<rparr>"
    if "prepare_urls_for_batch (st_entries st) start_idx end_idx \<noteq> []
        \<and> run_apify_batch_by_url (remotes batch_num) = Some (Inr [])"
    using detail_batches_empty_results [of st start_idx end_idx remotes batch_num] that by simp
  show "wecp_batch lib fieldnames w batch st = st"
    if "wecp_call w = Inl err \<or> wecp_items w = Inl err"
    using that by (rule wecp_batch_raises)
  show "wecp_batches lib fieldnames wremotes ((batch_num, batch) # batches) st
       = wecp_batches lib fieldnames wremotes batches
           (wecp_batch lib fieldnames (wremotes batch_num) batch st)"
    by (simp add: wecp_batches_def)
qed

theorem remote_failure_is_not_fatal_witness:
  "run_apify_batch \<lparr>call_result = Inr (Some \<lparr>run_id = ''r1'', defaultDatasetId = ''d1''\<rparr>),
                    poll_result = poll_running_then_failed, dataset_items = Inr []\<rparr>
     = Some (Inr [])
   \<and> run_apify_batch \<lparr>call_result = Inl ClientError,
                    poll_result = poll_running_then_failed, dataset_items = Inr []\<rparr>
     = Some (Inr [])"
proof -
  have ft: "first_terminal poll_running_then_failed 1 ''FAILED''"
    by (simp add: first_terminal_def poll_running_then_failed_def terminal_def
        reads_status_def not_terminal_pass_def)
  have a: "run_apify_batch \<lparr>call_result = Inr (Some \<lparr>run_id = ''r1'', defaultDatasetId = ''d1''\<rparr>),
                    poll_result = poll_running_then_failed, dataset_items = Inr []\<rparr>
     = Some (Inr [])"
    using ft remote_failure_is_not_fatal
      [where r = "\<lparr>call_result = Inr (Some \<lparr>run_id = ''r1'', defaultDatasetId = ''d1''\<rparr>),
                    poll_result = poll_running_then_failed, dataset_items = Inr []\<rparr>"
        and run = "\<lparr>run_id = ''r1'', defaultDatasetId = ''d1''\<rparr>" and j = 1
        and status = "''FAILED''"]
    by simp
  have b: "run_apify_batch \<lparr>call_result = Inl ClientError,
                    poll_result = poll_running_then_failed, dataset_items = Inr []\<rparr>
     = Some (Inr [])"
    using remote_failure_is_not_fatal
      [where r = "\<lparr>call_result = Inl ClientError,
                    poll_result = poll_running_then_failed, dataset_items = Inr []\<rparr>"
        and err = ClientError]
    by simp
  from a b show ?thesis by simp
qed

text \<open>
  C5 as stated fails for a polling call that raises: the exception is caught inside
  the loop and the next poll decides, here with \<^verbatim>\<open>SUCCEEDED\<close> and a mapping that is
  not empty. It also fails in \<^verbatim>\<open>enf_rescrape_wecp.py\<close> for a run that ends as
  \<^verbatim>\<open>FAILED\<close>: the items of its dataset are merged all the same.
\<close>

theorem poll_error_is_retried_counterexample:
  "run_apify_batch
     \<lparr>call_result = Inr (Some \<lparr>run_id = ''r1'', defaultDatasetId = ''d1''\<rparr>),
      poll_result = poll_error_then_succeeded,
      dataset_items = Inr [\<lparr>detail_url = ''u'', entryIndex = Some 0,
                            websites = [''http://a.com''], phone = [], address = []\<rparr>]\<rparr>
     = Some (Inr [(0, \<lparr>detail_url = ''u'', entryIndex = Some 0,
                       websites = [''http://a.com''], phone = [], address = []\<rparr>)])
   \<and> wecp_batch permissive_urllib
       [''detail_url'', ''website_url_primary'', ''website_domain_primary'']
       \<lparr>wecp_call = Inr ''FAILED'',
        wecp_items = Inr [\<lparr>item_url = Some ''u'', item_website = ''http://a.com''\<rparr>]\<rparr>
       [(0, ''u'')]
       \<lparr>st_entries = [[(''detail_url'', ''u''), (''website_url_primary'', ''''),
                        (''website_domain_primary'', '''')]],
        st_total_found = 0, st_saved = []\<rparr>
     = \<lparr>st_entries = [[(''detail_url'', ''u''), (''website_url_primary'', ''http://a.com''),
                        (''website_domain_primary'', ''a.com'')]],
        st_total_found = 1,
        st_saved = [([''detail_url'', ''website_url_primary'', ''website_domain_primary''],
                     [[''u'', ''http://a.com'', ''a.com'']])]\<rparr>"
proof (intro conjI)
  have "first_terminal poll_error_then_succeeded 1 ''SUCCEEDED''"
    by (simp add: first_terminal_def poll_error_then_succeeded_def terminal_def
        reads_status_def not_terminal_pass_def)
  then have "poll_loop poll_error_then_succeeded 0 = Some ''SUCCEEDED''"
    by (rule poll_loop_of_first_terminal)
  then show "run_apify_batch
     \<lparr>call_result = Inr (Some \<lparr>run_id = ''r1'', defaultDatasetId = ''d1''\<rparr>),
      poll_result = poll_error_then_succeeded,
      dataset_items = Inr [\<lparr>detail_url = ''u'', entryIndex = Some 0,
                            websites = [''http://a.com''], phone = [], address = []\<rparr>]\<rparr>
     = Some (Inr [(0, \<lparr>detail_url = ''u'', entryIndex = Some 0,
                       websites = [''http://a.com''], phone = [], address = []\<rparr>)])"
    by (simp add: run_apify_batch_def collect_by_index_def)
  have up: "urlparse_netloc permissive_urllib ''http://a.com'' = Inr ''a.com''"
    by (simp add: urlparse_netloc_def split_scheme_def splitnetloc_def Let_def
        unsafe_url_byte_def c0_control_or_space_def ascii_alpha_def scheme_char_def isascii_def)
  have ed: "extract_domain permissive_urllib ''http://a.com'' = ''a.com''"
    by (simp add: extract_domain_def up startswith_def)
  have st: "strip ''http://a.com'' = ''http://a.com''"
    by (simp add: strip_def isspace_def)
  show "wecp_batch permissive_urllib
       [''detail_url'', ''website_url_primary'', ''website_domain_primary'']
       \<lparr>wecp_call = Inr ''FAILED'',
        wecp_items = Inr [\<lparr>item_url = Some ''u'', item_website = ''http://a.com''\<rparr>]\<rparr>
       [(0, ''u'')]
       \<lparr>st_entries = [[(''detail_url'', ''u''), (''website_url_primary'', ''''),
                        (''website_domain_primary'', '''')]],
        st_total_found = 0, st_saved = []\<rparr>
     = \<lparr>st_entries = [[(''detail_url'', ''u''), (''website_url_primary'', ''http://a.com''),
                        (''website_domain_primary'', ''a.com'')]],
        st_total_found = 1,
        st_saved = [([''detail_url'', ''website_url_primary'', ''website_domain_primary''],
                     [[''u'', ''http://a.com'', ''a.com'']])]\<rparr>"
    by (simp add: wecp_batch_def url_to_result_def ed st save_csv_rescrape_def get_str_def)
qed


end
